theory Spec2Isabelle
  imports Main "HOL-Library.Word" "HOL-Library.Sublist"
begin

unbundle bit_operations_syntax

section \<open>Data model\<close>

text \<open>
  The error object that \<^verbatim>\<open>main\<close> builds in the \<^verbatim>\<open>catch\<close> of a deployment
  (\<^verbatim>\<open>{message, stdout, stderr}\<close>). The fields are strings: the source reads them as
  \<^verbatim>\<open>error.stdout || ''\<close>, which maps an absent field to the empty string.
\<close>

record error_record =
  message :: string
  stdout :: string
  stderr :: string

text \<open>
  Values produced by \<^verbatim>\<open>JSON.parse\<close>. Numbers are kept as integers; no definition
  below computes with them, they are only tested for being zero (falsy).
\<close>

datatype json =
  JNull
  | JBool bool
  | JNum int
  | JStr string
  | JArr "json list"
  | JObj "(string \<times> json) list"

text \<open>
  A file of a fix, as \<^verbatim>\<open>fixDeploymentErrors\<close> returns it after it has written it. The
  name is a string, and the content is what \<^verbatim>\<open>fs.writeFile\<close> accepted: a string, or
  an array, which \<^verbatim>\<open>fs.writeFile\<close> takes for an iterable of chunks.
\<close>

datatype file_content = Text string | Chunks "json list"

record fix_file =
  filename :: string
  content :: file_content

record fix_result =
  fixedFiles :: "fix_file list"
  summary :: json

record file_checksum =
  cs_filename :: string
  checksum :: string

record history_error =
  h_message :: string
  snippet :: string

record history_entry =
  h_attempt :: int
  h_error :: history_error
  h_fixedFiles :: "file_checksum list"
  h_summary :: json

section \<open>Checksums and error fingerprints\<close>

definition hexDigit :: "nat \<Rightarrow> char" where
  "hexDigit d = ''0123456789abcdef'' ! d"

fun toHexNat :: "nat \<Rightarrow> string" where
  "toHexNat n = (if n < 16 then [hexDigit n] else toHexNat (n div 16) @ [hexDigit (n mod 16)])"

declare toHexNat.simps [simp del]

text \<open>\<^verbatim>\<open>Number.prototype.toString(16)\<close> on an integer: a minus sign, then the magnitude.\<close>

definition toString16 :: "int \<Rightarrow> string" where
  "toString16 i = (if i < 0 then CHR ''-'' # toHexNat (nat (- i)) else toHexNat (nat i))"

text \<open>
  One round of the loop body \<^verbatim>\<open>hash = ((hash << 5) - hash) + char; hash = hash & hash\<close>.
  \<^verbatim>\<open><<\<close> and \<^verbatim>\<open>&\<close> work on 32-bit integers, and the intermediate sum is exact in a
  double, so the round is 32-bit wrap-around arithmetic.
\<close>

definition hashStep :: "32 word \<Rightarrow> char \<Rightarrow> 32 word" where
  "hashStep h c = (push_bit 5 h - h) + of_char c"

text \<open>
  \<^verbatim>\<open>calculateChecksum\<close> of the two repair scripts (debug.js). The loop runs over
  \<^verbatim>\<open>content.length\<close> and calls \<^verbatim>\<open>content.charCodeAt(i)\<close>. On an array the length is
  the number of its elements and \<^verbatim>\<open>charCodeAt\<close> is undefined, so the first round
  raises a \<^verbatim>\<open>TypeError\<close>; on the empty array the loop does not run. \<open>Inl\<close> is the
  message of the error.
\<close>

fun calculateChecksum :: "file_content \<Rightarrow> string + string" where
  "calculateChecksum (Text text) = Inr (toString16 (sint (foldl hashStep 0 text)))"
| "calculateChecksum (Chunks []) = Inr (toString16 0)"
| "calculateChecksum (Chunks (chunk # chunks)) = Inl ''content.charCodeAt is not a function''"

text \<open>\<^verbatim>\<open>calculateHash\<close> of the fix registry, with its early return on the empty text.\<close>

definition calculateHash :: "string \<Rightarrow> string" where
  "calculateHash text =
     (if length text = 0 then toString16 0
      else toString16 (sint (foldl hashStep 0 text)))"

text \<open>
  The object \<^verbatim>\<open>{hash, cleanedText}\<close> that \<^verbatim>\<open>generateErrorHash\<close> returns. Objects
  live in a store; a reference is the object's index in it, and \<^verbatim>\<open>===\<close> on two
  objects compares the references.
\<close>

record hash_obj =
  hash :: string
  cleanedText :: string

type_synonym heap = "hash_obj list"

type_synonym ref = nat

definition alloc :: "hash_obj \<Rightarrow> heap \<Rightarrow> ref \<times> heap" where
  "alloc obj h = (length h, h @ [obj])"

text \<open>
  \<^verbatim>\<open>generateErrorHash\<close>. The regular-expression clean-up \<^verbatim>\<open>cleanErrorText\<close> is the
  parameter \<open>clean\<close>; the object literal of the \<^verbatim>\<open>return\<close> is a fresh allocation.
\<close>

definition generateErrorHash ::
  "(string \<Rightarrow> string) \<Rightarrow> error_record \<Rightarrow> heap \<Rightarrow> ref \<times> heap" where
  "generateErrorHash clean err h =
     (let errorText = stderr err @ [CHR 0x0A] @ stdout err @ [CHR 0x0A] @ message err;
          cleaned = clean errorText
      in alloc \<lparr>hash = calculateHash cleaned, cleanedText = cleaned\<rparr> h)"

text \<open>
  \<^verbatim>\<open>isSameErrorByHash\<close>. An argument is \<open>None\<close> for \<^verbatim>\<open>null\<close> or \<^verbatim>\<open>undefined\<close>;
  every object is truthy.
\<close>

definition isSameErrorByHash ::
  "(string \<Rightarrow> string) \<Rightarrow> error_record option \<Rightarrow> error_record option \<Rightarrow> heap \<Rightarrow> bool \<times> heap" where
  "isSameErrorByHash clean error1 error2 h =
     (case (error1, error2) of
        (Some e1, Some e2) \<Rightarrow>
          (let (hash1, h1) = generateErrorHash clean e1 h;
               (hash2, h2) = generateErrorHash clean e2 h1
           in (hash1 = hash2, h2))
      | _ \<Rightarrow> (False, h))"

section \<open>The attempt bound\<close>

definition isWhiteSpace :: "char \<Rightarrow> bool" where
  "isWhiteSpace c = (c \<in> {CHR '' '', CHR 0x09, CHR 0x0A, CHR 0x0B, CHR 0x0C, CHR 0x0D, CHR 0xA0})"

definition digitValue :: "char \<Rightarrow> nat option" where
  "digitValue c =
     (let k = (of_char c :: nat) in
      if 48 \<le> k \<and> k \<le> 57 then Some (k - 48)
      else if 97 \<le> k \<and> k \<le> 122 then Some (k - 87)
      else if 65 \<le> k \<and> k \<le> 90 then Some (k - 55)
      else None)"

definition isRadixDigit :: "nat \<Rightarrow> char \<Rightarrow> bool" where
  "isRadixDigit R c = (case digitValue c of None \<Rightarrow> False | Some d \<Rightarrow> d < R)"

definition digitsValue :: "nat \<Rightarrow> string \<Rightarrow> nat" where
  "digitsValue R Z =
     foldl (\<lambda>a c. a * R + (case digitValue c of None \<Rightarrow> 0 | Some d \<Rightarrow> d)) 0 Z"

text \<open>
  \<^verbatim>\<open>parseInt(string)\<close> with no radix, after ECMA-262: leading white space is dropped,
  then a sign, then a \<^verbatim>\<open>0x\<close> prefix switches to radix 16, then the longest run of
  digits is read; \<open>None\<close> is \<^verbatim>\<open>NaN\<close>. \<open>Some 0\<close> stands for both zeros. The result
  is an integer of any size; a JavaScript number is exact up to \<open>2 ^ 53\<close>. A character
  is a code unit below 256.
\<close>

definition parseInt :: "string \<Rightarrow> int option" where
  "parseInt inputString =
     (let S = dropWhile isWhiteSpace inputString;
          neg = prefix ''-'' S;
          S1 = (if prefix ''-'' S \<or> prefix ''+'' S then tl S else S);
          hex = (prefix ''0x'' S1 \<or> prefix ''0X'' S1);
          R = (if hex then 16 else 10);
          S2 = (if hex then drop 2 S1 else S1);
          Z = takeWhile (isRadixDigit R) S2
      in if Z = [] then None
         else Some ((if neg then - 1 else 1) * int (digitsValue R Z)))"

definition MAX_FIX_ATTEMPTS :: int where
  "MAX_FIX_ATTEMPTS = 5"

text \<open>
  \<^verbatim>\<open>parseInt(options.maxAttempts) || MAX_FIX_ATTEMPTS\<close>. The option is \<open>None\<close> when the
  flag is not given; then commander supplies the number 5, which \<^verbatim>\<open>parseInt\<close> reads
  back as 5.
\<close>

definition maxAttemptsOf :: "string option \<Rightarrow> int" where
  "maxAttemptsOf opt =
     (case (case opt of None \<Rightarrow> parseInt ''5'' | Some s \<Rightarrow> parseInt s) of
        None \<Rightarrow> MAX_FIX_ATTEMPTS
      | Some n \<Rightarrow> (if n = 0 then MAX_FIX_ATTEMPTS else n))"

section \<open>The retry loop of \<^verbatim>\<open>main\<close>\<close>

text \<open>
  Everything \<^verbatim>\<open>main\<close> awaits is a step on a world \<open>'w\<close> (file system, network,
  child processes). A step that can reject returns \<open>False\<close> or \<open>Inl\<close>.
\<close>

record 'w env =
  validateProject :: "'w \<Rightarrow> bool \<times> 'w"
  readDiagram :: "'w \<Rightarrow> string \<times> 'w"
  chdir :: "'w \<Rightarrow> bool \<times> 'w"
  fixOverwrite :: "string \<Rightarrow> 'w \<Rightarrow> 'w"
  fixDeploymentErrorsStep ::
    "string \<Rightarrow> error_record \<Rightarrow> history_entry list \<Rightarrow> 'w \<Rightarrow> (string + fix_result) \<times> 'w"
  deploy :: "'w \<Rightarrow> error_record option \<times> 'w"
  writeErrorLog :: "int \<Rightarrow> error_record \<Rightarrow> 'w \<Rightarrow> bool \<times> 'w"
  writeHistory :: "history_entry list \<Rightarrow> 'w \<Rightarrow> bool \<times> 'w"
  listExports :: "'w \<Rightarrow> 'w"

text \<open>
  What a run did, in order; the integer is the value of \<^verbatim>\<open>attempt\<close>. The flag of a
  fix step says whether its \<^verbatim>\<open>try\<close> block ran to its end, past the \<^verbatim>\<open>push\<close>; the
  flag of a deploy step and of a write says whether it succeeded.
\<close>

datatype event =
  FixStep int bool
  | DeployStep int bool
  | ErrorLogWrite int bool
  | HistoryWrite bool

record 'w run_state =
  lastError :: "error_record option"
  success :: bool
  fixHistory :: "history_entry list"
  world :: 'w
  trace :: "event list"

text \<open>\<^verbatim>\<open>lastError.stderr?.substring(0, 200) || lastError.message\<close>\<close>

definition snippetOf :: "error_record \<Rightarrow> string" where
  "snippetOf err = (if take 200 (stderr err) = [] then message err else take 200 (stderr err))"

text \<open>
  \<^verbatim>\<open>fixedFiles.map(file => ({ filename: file.filename, checksum:\<close>
  \<^verbatim>\<open>calculateChecksum(file.content) }))\<close>: the first checksum that raises ends the map.
\<close>

fun checksums :: "fix_file list \<Rightarrow> string + file_checksum list" where
  "checksums [] = Inr []"
| "checksums (file # files) =
     (case calculateChecksum (content file) of
        Inl e \<Rightarrow> Inl e
      | Inr c \<Rightarrow>
          (case checksums files of
             Inl e \<Rightarrow> Inl e
           | Inr cs \<Rightarrow> Inr (\<lparr>cs_filename = filename file, checksum = c\<rparr> # cs)))"

text \<open>The object literal that is pushed; building it raises when a checksum does.\<close>

definition historyEntry :: "int \<Rightarrow> error_record \<Rightarrow> fix_result \<Rightarrow> string + history_entry" where
  "historyEntry attempt err result =
     (case checksums (fixedFiles result) of
        Inl e \<Rightarrow> Inl e
      | Inr cs \<Rightarrow>
          Inr \<lparr>h_attempt = attempt,
               h_error = \<lparr>h_message = message err, snippet = snippetOf err\<rparr>,
               h_fixedFiles = cs,
               h_summary = summary result\<rparr>)"

text \<open>
  The pre-check for file-overwrite conflicts. Its \<^verbatim>\<open>chmod\<close> and \<^verbatim>\<open>unlink\<close> sit in a
  \<^verbatim>\<open>try\<close> of their own, so it changes the world and never raises. The second script
  (fix-cdk-errors) has no such pre-check: there \<open>fixOverwrite\<close> is the identity.
\<close>

definition overwriteStep :: "'w env \<Rightarrow> 'w run_state \<Rightarrow> 'w run_state" where
  "overwriteStep E s =
     (case lastError s of
        None \<Rightarrow> s
      | Some err \<Rightarrow>
          (if stderr err \<noteq> [] \<and> sublist ''overwrite input file'' (stderr err)
           then s\<lparr>world := fixOverwrite E (stderr err) (world s)\<rparr>
           else s))"

text \<open>
  \<^verbatim>\<open>if (lastError) { try { ... fixHistory.push(...) } catch { ... } }\<close>: the push is
  inside the \<^verbatim>\<open>try\<close>, after the awaited call, and its argument is built before
  anything is pushed. The \<^verbatim>\<open>catch\<close> receives an error of the call and an error of a
  checksum alike, and only logs it. The second script is given the files only and its
  entries have no summary.
\<close>

definition fixStep :: "'w env \<Rightarrow> string \<Rightarrow> int \<Rightarrow> 'w run_state \<Rightarrow> 'w run_state" where
  "fixStep E plantUmlContent attempt s =
     (case lastError s of
        None \<Rightarrow> s
      | Some err \<Rightarrow>
          (case fixDeploymentErrorsStep E plantUmlContent err (fixHistory s) (world s) of
             (Inr result, w) \<Rightarrow>
               (case historyEntry attempt err result of
                  Inr entry \<Rightarrow>
                    s\<lparr>fixHistory := fixHistory s @ [entry],
                      world := w,
                      trace := trace s @ [FixStep attempt True]\<rparr>
                | Inl e \<Rightarrow>
                    s\<lparr>world := w, trace := trace s @ [FixStep attempt False]\<rparr>)
           | (Inl e, w) \<Rightarrow>
               s\<lparr>world := w, trace := trace s @ [FixStep attempt False]\<rparr>))"

text \<open>
  The deployment and its \<^verbatim>\<open>catch\<close>. The write of the per-attempt error log is awaited
  inside the \<^verbatim>\<open>catch\<close>: when it rejects, the error leaves the loop (first component
  \<open>False\<close>).
\<close>

definition deployStep :: "'w env \<Rightarrow> int \<Rightarrow> 'w run_state \<Rightarrow> bool \<times> 'w run_state" where
  "deployStep E attempt s =
     (case deploy E (world s) of
        (None, w) \<Rightarrow>
          (True, s\<lparr>success := True, world := w, trace := trace s @ [DeployStep attempt True]\<rparr>)
      | (Some err, w) \<Rightarrow>
          (case writeErrorLog E attempt err w of
             (ok, w') \<Rightarrow>
               (ok, s\<lparr>lastError := Some err, world := w',
                       trace := trace s @ [DeployStep attempt False, ErrorLogWrite attempt ok]\<rparr>)))"

text \<open>
  The loop \<^verbatim>\<open>while (attempt < maxAttempts && !success)\<close>. \<open>attempt\<close> is the counter
  before \<^verbatim>\<open>attempt++\<close>; the rest of the state is \<open>s\<close>.
\<close>

function retryLoop ::
  "'w env \<Rightarrow> string \<Rightarrow> int \<Rightarrow> int \<Rightarrow> 'w run_state \<Rightarrow> bool \<times> 'w run_state" where
  "retryLoop E plantUmlContent maxAttempts attempt s =
     (if attempt < maxAttempts \<and> \<not> success s then
        (let s1 = overwriteStep E s;
             s2 = fixStep E plantUmlContent (attempt + 1) s1
         in case deployStep E (attempt + 1) s2 of
              (False, s3) \<Rightarrow> (False, s3)
            | (True, s3) \<Rightarrow> retryLoop E plantUmlContent maxAttempts (attempt + 1) s3)
      else (True, s))"
  by pat_completeness auto
termination
  by (relation "measure (\<lambda>(E, p, maxAttempts, attempt, s). nat (maxAttempts - attempt))") auto

declare retryLoop.simps [simp del]

text \<open>
  What follows the loop: the history file is written when the history is not empty, and
  the exit code is 0 on success. A rejected write is caught by the outer \<^verbatim>\<open>catch\<close>
  of \<^verbatim>\<open>main\<close>, which returns 1.
\<close>

definition finish :: "'w env \<Rightarrow> 'w run_state \<Rightarrow> int \<times> 'w run_state" where
  "finish E s =
     (let (ok, s1) =
            (if length (fixHistory s) > 0 then
               (case writeHistory E (fixHistory s) (world s) of
                  (ok, w) \<Rightarrow> (ok, s\<lparr>world := w, trace := trace s @ [HistoryWrite ok]\<rparr>))
             else (True, s))
      in if \<not> ok then (1, s1)
         else if success s1 then (0, s1\<lparr>world := listExports E (world s1)\<rparr>)
         else (1, s1))"

definition initialState :: "'w \<Rightarrow> 'w run_state" where
  "initialState w = \<lparr>lastError = None, success = False, fixHistory = [], world = w, trace = []\<rparr>"

text \<open>
  \<^verbatim>\<open>main\<close>, from the parsed options to the exit code that
  \<^verbatim>\<open>main().then(exitCode => process.exit(exitCode))\<close> hands to the process. A failed
  validation is \<^verbatim>\<open>process.exit(1)\<close>; a failed \<^verbatim>\<open>chdir\<close> raises into the outer
  \<^verbatim>\<open>catch\<close>.
\<close>

definition main :: "'w env \<Rightarrow> string option \<Rightarrow> 'w \<Rightarrow> int \<times> 'w run_state" where
  "main E optMaxAttempts w0 =
     (let maxAttempts = maxAttemptsOf optMaxAttempts in
      case validateProject E w0 of
        (False, w1) \<Rightarrow> (1, initialState w1)
      | (True, w1) \<Rightarrow>
          (case readDiagram E w1 of
             (plantUmlContent, w2) \<Rightarrow>
               (case chdir E w2 of
                  (False, w3) \<Rightarrow> (1, initialState w3)
                | (True, w3) \<Rightarrow>
                    (case retryLoop E plantUmlContent maxAttempts 0 (initialState w3) of
                       (False, s) \<Rightarrow> (1, s)
                     | (True, s) \<Rightarrow> finish E s))))"

section \<open>Paths\<close>

text \<open>
  The functions of Node's \<^verbatim>\<open>path\<close> module that the scripts call, in their POSIX
  form. \<^verbatim>\<open>s.startsWith(p)\<close> is \<^term>\<open>prefix p s\<close>, \<^verbatim>\<open>s.includes(w)\<close> is
  \<^term>\<open>sublist w s\<close> and \<^verbatim>\<open>s.endsWith(e)\<close> is \<^term>\<open>suffix e s\<close>.
\<close>

definition isAbsolute :: "string \<Rightarrow> bool" where
  "isAbsolute p = (p \<noteq> [] \<and> hd p = CHR ''/'')"

text \<open>\<^verbatim>\<open>p.split('/')\<close> and \<^verbatim>\<open>segs.join('/')\<close>.\<close>

fun splitSlash :: "string \<Rightarrow> string list" where
  "splitSlash [] = [[]]"
| "splitSlash (c # cs) =
     (if c = CHR ''/'' then [] # splitSlash cs
      else (case splitSlash cs of [] \<Rightarrow> [[c]] | seg # segs \<Rightarrow> (c # seg) # segs))"

fun joinSlash :: "string list \<Rightarrow> string" where
  "joinSlash [] = []"
| "joinSlash [seg] = seg"
| "joinSlash (seg # segs) = seg @ CHR ''/'' # joinSlash segs"

text \<open>
  \<^verbatim>\<open>normalizeString\<close>, on segments: empty segments and \<^verbatim>\<open>.\<close> are dropped, \<^verbatim>\<open>..\<close>
  removes the segment before it, and is kept only where there is none to remove and
  the path is relative. \<open>res\<close> is the result so far, last segment first.
\<close>

fun normalizeSegs :: "bool \<Rightarrow> string list \<Rightarrow> string list \<Rightarrow> string list" where
  "normalizeSegs allowAboveRoot res [] = rev res"
| "normalizeSegs allowAboveRoot res (seg # segs) =
     (if seg = [] \<or> seg = ''.'' then normalizeSegs allowAboveRoot res segs
      else if seg = ''..'' then
        (if res \<noteq> [] \<and> hd res \<noteq> ''..'' then normalizeSegs allowAboveRoot (tl res) segs
         else if allowAboveRoot then normalizeSegs allowAboveRoot (''..'' # res) segs
         else normalizeSegs allowAboveRoot res segs)
      else normalizeSegs allowAboveRoot (seg # res) segs)"

definition path_normalize :: "string \<Rightarrow> string" where
  "path_normalize p =
     (if p = [] then ''.''
      else
        (let isAbs = isAbsolute p;
             trailingSeparator = (last p = CHR ''/'');
             r = joinSlash (normalizeSegs (\<not> isAbs) [] (splitSlash p))
         in if r = [] then (if isAbs then ''/'' else if trailingSeparator then ''./'' else ''.'')
            else (if isAbs then ''/'' else []) @ r @ (if trailingSeparator then ''/'' else [])))"

definition path_join :: "string \<Rightarrow> string \<Rightarrow> string" where
  "path_join a b =
     (if a = [] \<and> b = [] then ''.''
      else path_normalize (if a = [] then b else if b = [] then a else a @ CHR ''/'' # b))"

text \<open>
  The segments of \<^verbatim>\<open>path.resolve(p)\<close>; the result of \<^verbatim>\<open>path.resolve\<close> is a slash
  followed by these, joined. \<open>cwd\<close> is \<^verbatim>\<open>process.cwd()\<close>, an absolute path.
\<close>

definition resolveSegs :: "string \<Rightarrow> string \<Rightarrow> string list" where
  "resolveSegs cwd p =
     normalizeSegs False [] (splitSlash (if isAbsolute p then p else cwd @ CHR ''/'' # p))"

fun commonPrefixLength :: "string list \<Rightarrow> string list \<Rightarrow> nat" where
  "commonPrefixLength (x # xs) (y # ys) = (if x = y then Suc (commonPrefixLength xs ys) else 0)"
| "commonPrefixLength xs ys = 0"

text \<open>
  \<^verbatim>\<open>path.relative(from, to)\<close>: one \<^verbatim>\<open>..\<close> for each segment of \<open>from\<close> below the common
  directory, then the segments of \<open>to\<close> below it.
\<close>

definition path_relative :: "string \<Rightarrow> string \<Rightarrow> string \<Rightarrow> string" where
  "path_relative cwd from to =
     (if from = to then []
      else
        (let f = resolveSegs cwd from;
             t = resolveSegs cwd to;
             k = commonPrefixLength f t
         in joinSlash (replicate (length f - k) ''..'' @ drop k t)))"

definition path_basename :: "string \<Rightarrow> string" where
  "path_basename p =
     (case filter (\<lambda>seg. seg \<noteq> []) (splitSlash p) of [] \<Rightarrow> [] | seg # segs \<Rightarrow> last (seg # segs))"

text \<open>
  \<^verbatim>\<open>path.dirname\<close>: the path up to the last slash that has a name after it; trailing
  slashes are skipped, and the first character is never taken for that slash.
\<close>

definition path_dirname :: "string \<Rightarrow> string" where
  "path_dirname p =
     (if p = [] then ''.''
      else
        (let hasRoot = (hd p = CHR ''/'');
             r = dropWhile (\<lambda>c. c \<noteq> CHR ''/'') (dropWhile (\<lambda>c. c = CHR ''/'') (rev (tl p)))
         in if r = [] then (if hasRoot then ''/'' else ''.'')
            else if hasRoot \<and> tl r = [] then ''//''
            else hd p # rev (tl r)))"

text \<open>
  Whether the resolved path lies in the directory, or is the directory: the segments of
  the directory begin the segments of the path.
\<close>

definition insideDir :: "string \<Rightarrow> string \<Rightarrow> string \<Rightarrow> bool" where
  "insideDir cwd dir p = prefix (resolveSegs cwd dir) (resolveSegs cwd p)"

text \<open>\<^verbatim>\<open>normalizeFilePath\<close> of the debug script.\<close>

definition normalizeFilePath :: "string \<Rightarrow> string \<Rightarrow> string \<Rightarrow> string" where
  "normalizeFilePath cwd filePath projectDir =
     (if isAbsolute filePath then
        (if prefix projectDir filePath then path_relative cwd projectDir filePath
         else path_basename filePath)
      else filePath)"

text \<open>
  The same step in the extractor of the fix-cdk-errors script, written in line there:
  \<^verbatim>\<open>if (path.isAbsolute(filePath) && filePath.startsWith(projectDir))\<close>
  \<^verbatim>\<open>filePath = path.relative(projectDir, filePath)\<close>.
\<close>

definition relativizeInProject :: "string \<Rightarrow> string \<Rightarrow> string \<Rightarrow> string" where
  "relativizeInProject cwd filePath projectDir =
     (if isAbsolute filePath \<and> prefix projectDir filePath
      then path_relative cwd projectDir filePath
      else filePath)"

section \<open>The error-context extractor\<close>

record relevant_file =
  path :: string
  fileContent :: string

text \<open>
  What the extractor asks of the file system: \<^verbatim>\<open>fs.existsSync\<close>, and \<^verbatim>\<open>fs.readFile\<close>,
  which is \<open>None\<close> when the read rejects.
\<close>

record read_env =
  existsSync :: "string \<Rightarrow> bool"
  readFile :: "string \<Rightarrow> string option"

text \<open>
  The state of the two nested loops. \<open>reads\<close> lists the calls of \<^verbatim>\<open>fs.readFile\<close> in
  order: the path as the seen-set holds it, and the full path that is read.
\<close>

record extract_state =
  relevantFiles :: "relevant_file list"
  filesMentioned :: "string set"
  reads :: "(string \<times> string) list"

definition stripPrefix :: "string \<Rightarrow> string \<Rightarrow> string" where
  "stripPrefix pre s = (if prefix pre s then drop (length pre) s else s)"

definition replaceSuffix :: "string \<Rightarrow> string \<Rightarrow> string \<Rightarrow> string" where
  "replaceSuffix old new s = (if suffix old s then take (length s - length old) s @ new else s)"

text \<open>
  \<^verbatim>\<open>filePath.replace(/^dist\//, '').replace(/\.js$/, '.ts').replace(/\.d\.ts$/, '.ts')\<close>
\<close>

definition distToSource :: "string \<Rightarrow> string" where
  "distToSource filePath =
     replaceSuffix ''.d.ts'' ''.ts'' (replaceSuffix ''.js'' ''.ts'' (stripPrefix ''dist/'' filePath))"

text \<open>The filter on the raw match: \<^verbatim>\<open>node_modules\<close> and the runtime's own modules.\<close>

definition skipped :: "string \<Rightarrow> bool" where
  "skipped filePath =
     (sublist ''node_modules'' filePath \<or> prefix ''internal/'' filePath \<or> filePath = ''module.js'')"

text \<open>
  The block for a \<^verbatim>\<open>dist/\<close> path. It has no \<^verbatim>\<open>continue\<close>: the caller goes on with
  \<open>filePath\<close> itself.
\<close>

definition addSourceFile :: "read_env \<Rightarrow> string \<Rightarrow> string \<Rightarrow> extract_state \<Rightarrow> extract_state" where
  "addSourceFile rd projectDir filePath st =
     (if prefix ''dist/'' filePath then
        (let sourceFile = distToSource filePath in
         if sourceFile \<notin> filesMentioned st then
           (let st1 = st\<lparr>filesMentioned := insert sourceFile (filesMentioned st)\<rparr>;
                fullPath = path_join projectDir sourceFile
            in if existsSync rd fullPath then
                 (case readFile rd fullPath of
                    Some c \<Rightarrow>
                      st1\<lparr>relevantFiles :=
                            relevantFiles st1 @ [\<lparr>path = sourceFile, fileContent = c\<rparr>],
                          reads := reads st1 @ [(sourceFile, fullPath)]\<rparr>
                  | None \<Rightarrow> st1\<lparr>reads := reads st1 @ [(sourceFile, fullPath)]\<rparr>)
               else st1)
         else st)
      else st)"

text \<open>The part of the loop body from \<^verbatim>\<open>// Skip if already processed\<close> on.\<close>

definition addFile :: "read_env \<Rightarrow> string \<Rightarrow> string \<Rightarrow> extract_state \<Rightarrow> extract_state" where
  "addFile rd projectDir filePath st =
     (if filePath \<in> filesMentioned st then st
      else
        (let st1 = st\<lparr>filesMentioned := insert filePath (filesMentioned st)\<rparr>;
             fullPath = path_join projectDir filePath
         in case readFile rd fullPath of
              Some c \<Rightarrow>
                st1\<lparr>relevantFiles := relevantFiles st1 @ [\<lparr>path = filePath, fileContent = c\<rparr>],
                    reads := reads st1 @ [(filePath, fullPath)]\<rparr>
            | None \<Rightarrow> st1\<lparr>reads := reads st1 @ [(filePath, fullPath)]\<rparr>))"

text \<open>One round of the inner loop of the debug script, for the match \<open>m\<close>.\<close>

definition processMatch ::
  "read_env \<Rightarrow> string \<Rightarrow> string \<Rightarrow> extract_state \<Rightarrow> string \<Rightarrow> extract_state" where
  "processMatch rd cwd projectDir st m =
     (if skipped m then st
      else
        (let filePath = normalizeFilePath cwd m projectDir
         in addFile rd projectDir filePath (addSourceFile rd projectDir filePath st)))"

definition emptyExtract :: extract_state where
  "emptyExtract = \<lparr>relevantFiles = [], filesMentioned = {}, reads = []\<rparr>"

text \<open>
  The character classes of the patterns: \<^verbatim>\<open>\s\<close>, \<^verbatim>\<open>[0-9]\<close> and \<^verbatim>\<open>['"]\<close>. A
  character is a code unit below 256.
\<close>

definition isSpaceChar :: "char \<Rightarrow> bool" where
  "isSpaceChar c = (c \<in> {CHR 0x09, CHR 0x0A, CHR 0x0B, CHR 0x0C, CHR 0x0D, CHR '' '', CHR 0xA0})"

definition isDigitChar :: "char \<Rightarrow> bool" where
  "isDigitChar c = (48 \<le> (of_char c :: nat) \<and> (of_char c :: nat) \<le> 57)"

definition isQuote :: "char \<Rightarrow> bool" where
  "isQuote c = (c = CHR 0x27 \<or> c = CHR 0x22)"

text \<open>
  A pattern, as a function of the text from the place where the match is to begin: the
  first capture group and the length of the whole match, or \<open>None\<close> when the pattern
  does not match there. Each pattern is a fixed text, then a run of characters of one
  class, then a character outside the class, so the longest run is the only match.
\<close>

type_synonym matcher = "string \<Rightarrow> (string \<times> nat) option"

definition afterLiteral :: "string \<Rightarrow> string \<Rightarrow> string option" where
  "afterLiteral lit s = (if prefix lit s then Some (drop (length lit) s) else None)"

text \<open>\<^verbatim>\<open>/Error at ([^:]+):/\<close>, for the fixed text \<^verbatim>\<open>Error at\<close> and a blank.\<close>

definition matchUntilColon :: "string \<Rightarrow> matcher" where
  "matchUntilColon lit s =
     (case afterLiteral lit s of
        None \<Rightarrow> None
      | Some r \<Rightarrow>
          (let run = takeWhile (\<lambda>c. c \<noteq> CHR '':'') r
           in if run \<noteq> [] \<and> length run < length r
              then Some (run, length lit + length run + 1)
              else None))"

text \<open>\<^verbatim>\<open>/from (\/[^:]+):/\<close>\<close>

definition matchFrom :: matcher where
  "matchFrom s =
     (case afterLiteral ''from /'' s of
        None \<Rightarrow> None
      | Some r \<Rightarrow>
          (let run = takeWhile (\<lambda>c. c \<noteq> CHR '':'') r
           in if run \<noteq> [] \<and> length run < length r
              then Some (CHR ''/'' # run, 6 + length run + 1)
              else None))"

text \<open>\<^verbatim>\<open>/at ([^:]+):[0-9]+:[0-9]+/\<close>\<close>

definition matchAt :: matcher where
  "matchAt s =
     (case afterLiteral ''at '' s of
        None \<Rightarrow> None
      | Some r \<Rightarrow>
          (let run = takeWhile (\<lambda>c. c \<noteq> CHR '':'') r;
               line = takeWhile isDigitChar (drop (length run + 1) r);
               r1 = drop (length run + 1 + length line) r;
               col = takeWhile isDigitChar (drop 1 r1)
           in if run \<noteq> [] \<and> length run < length r \<and> line \<noteq> []
                 \<and> prefix '':'' r1 \<and> col \<noteq> []
              then Some (run, 3 + length run + 1 + length line + 1 + length col)
              else None))"

text \<open>
  \<^verbatim>\<open>/([^:\s]+\.ts)(?::[0-9]+)?/\<close> and the same for \<^verbatim>\<open>.js\<close>: in the longest run of
  characters that are neither colons nor white space, the group ends with the last
  extension that has a character before it; a colon and digits after it belong to the
  match.
\<close>

definition matchExt :: "string \<Rightarrow> matcher" where
  "matchExt ext s =
     (let run = takeWhile (\<lambda>c. c \<noteq> CHR '':'' \<and> \<not> isSpaceChar c) s;
          ks = filter (\<lambda>k. take (length ext) (drop k run) = ext) [1..<length run]
      in if ks = [] then None
         else
           (let n = last ks + length ext;
                digits = (if prefix '':'' (drop n s) then takeWhile isDigitChar (drop (n + 1) s) else [])
            in Some (take n s, n + (if digits = [] then 0 else 1 + length digits))))"

text \<open>\<^verbatim>\<open>/Cannot find module ['"]([^'"]+)['"]/\<close> and the two patterns of the same shape.\<close>

definition matchQuoted :: "string \<Rightarrow> matcher" where
  "matchQuoted lit s =
     (case afterLiteral lit s of
        None \<Rightarrow> None
      | Some r \<Rightarrow>
          (let run = takeWhile (\<lambda>c. \<not> isQuote c) (drop 1 r)
           in if r \<noteq> [] \<and> isQuote (hd r) \<and> run \<noteq> [] \<and> length run < length (drop 1 r)
              then Some (run, length lit + 1 + length run + 1)
              else None))"

text \<open>
  The loop \<^verbatim>\<open>while ((match = pattern.exec(errorText)) !== null)\<close> of a pattern with
  the flag \<^verbatim>\<open>g\<close>: the leftmost match, then the search goes on behind it. No pattern
  matches the empty text; \<open>max 1 n\<close> only says so.
\<close>

function scanAll :: "matcher \<Rightarrow> string \<Rightarrow> string list" where
  "scanAll m [] = []"
| "scanAll m (c # cs) =
     (case m (c # cs) of
        None \<Rightarrow> scanAll m cs
      | Some (cap, n) \<Rightarrow> cap # scanAll m (drop (max 1 n) (c # cs)))"
  by pat_completeness auto
termination
  by (relation "measure (\<lambda>(m, s). length s)") auto

definition patterns :: "matcher list" where
  "patterns =
     [matchUntilColon ''Error at '',
      matchExt ''.ts'',
      matchExt ''.js'',
      matchQuoted ''Cannot find module '',
      matchQuoted ''ENOENT: no such file or directory, open '',
      matchFrom,
      matchAt,
      matchQuoted ''Cannot write file '']"

text \<open>The second script has the first seven patterns.\<close>

definition patterns2 :: "matcher list" where
  "patterns2 = butlast patterns"

text \<open>The outer loop over the patterns: the first capture groups of all matches, in order.\<close>

definition scanPatterns :: "matcher list \<Rightarrow> string \<Rightarrow> string list" where
  "scanPatterns ps errorText = concat (map (\<lambda>m. scanAll m errorText) ps)"

text \<open>
  \<^verbatim>\<open>extractRelevantFiles\<close> of the debug script. \<open>extractRun\<close> is the final state of
  the loops, \<open>extractRelevantFiles\<close> the list that is returned.
\<close>

definition extractRun :: "read_env \<Rightarrow> string \<Rightarrow> string \<Rightarrow> string \<Rightarrow> extract_state" where
  "extractRun rd cwd errorText projectDir =
     foldl (processMatch rd cwd projectDir) emptyExtract (scanPatterns patterns errorText)"

definition extractRelevantFiles ::
  "read_env \<Rightarrow> string \<Rightarrow> string \<Rightarrow> string \<Rightarrow> relevant_file list" where
  "extractRelevantFiles rd cwd errorText projectDir =
     relevantFiles (extractRun rd cwd errorText projectDir)"

text \<open>The extractor of the fix-cdk-errors script: no \<^verbatim>\<open>dist/\<close> block, no base names.\<close>

definition processMatch2 ::
  "read_env \<Rightarrow> string \<Rightarrow> string \<Rightarrow> extract_state \<Rightarrow> string \<Rightarrow> extract_state" where
  "processMatch2 rd cwd projectDir st m =
     (if skipped m then st
      else addFile rd projectDir (relativizeInProject cwd m projectDir) st)"

definition extractRun2 :: "read_env \<Rightarrow> string \<Rightarrow> string \<Rightarrow> string \<Rightarrow> extract_state" where
  "extractRun2 rd cwd errorText projectDir =
     foldl (processMatch2 rd cwd projectDir) emptyExtract (scanPatterns patterns2 errorText)"

definition extractRelevantFiles2 ::
  "read_env \<Rightarrow> string \<Rightarrow> string \<Rightarrow> string \<Rightarrow> relevant_file list" where
  "extractRelevantFiles2 rd cwd errorText projectDir =
     relevantFiles (extractRun2 rd cwd errorText projectDir)"

section \<open>The file system\<close>

text \<open>
  A file system maps the segments of a resolved path to a file with its content or to
  a directory; the root (no segments) is a directory. The working directory is taken
  to exist, so that a path which \<^verbatim>\<open>path.join\<close> has normalised is resolved by the
  operating system as \<^verbatim>\<open>path.resolve\<close> resolves it.
\<close>

datatype node = File string | Dir

type_synonym filesystem = "string list \<Rightarrow> node option"

fun isFile :: "node option \<Rightarrow> bool" where
  "isFile (Some (File c)) = True"
| "isFile other = False"

text \<open>
  What the scripts get from the platform and what the shape of the tree does not
  decide. \<open>mkdirError\<close>, \<open>writeError\<close> and \<open>readError\<close> are the verdict of the operating
  system on making a directory, writing a file and reading a file in a given state of
  the file system (\<^verbatim>\<open>EACCES\<close>, \<^verbatim>\<open>EROFS\<close>, \<^verbatim>\<open>ENOSPC\<close>, ...); \<open>None\<close> lets the
  operation go on. A rejected write comes with the content that it leaves in the file,
  if the file was opened before the error. \<open>bufferFrom\<close> is \<^verbatim>\<open>Buffer.from\<close> on an
  array or an object, \<open>None\<close> when it raises.
\<close>

record platform =
  mkdirError :: "filesystem \<Rightarrow> string list \<Rightarrow> string option"
  writeError :: "filesystem \<Rightarrow> string list \<Rightarrow> string \<Rightarrow> (string \<times> string option) option"
  readError :: "filesystem \<Rightarrow> string list \<Rightarrow> string option"
  bufferFrom :: "json \<Rightarrow> string option"

text \<open>
  \<^verbatim>\<open>fs.mkdir(dir, { recursive: true })\<close> on the segments of \<open>dir\<close>: the directories
  on the way are made from the top, \<open>ds\<close> are the ones still to look at. A directory
  that is there is left alone, a file in the way is an error, and the directories
  made before an error stay. The first component is the error, if there is one.
\<close>

fun mkdirs :: "platform \<Rightarrow> string list list \<Rightarrow> filesystem \<Rightarrow> string option \<times> filesystem" where
  "mkdirs P [] fs = (None, fs)"
| "mkdirs P (d # ds) fs =
     (case fs d of
        Some Dir \<Rightarrow> mkdirs P ds fs
      | Some (File c) \<Rightarrow> (Some (if ds = [] then ''EEXIST'' else ''ENOTDIR''), fs)
      | None \<Rightarrow>
          (if d = [] then mkdirs P ds (fs(d \<mapsto> Dir))
           else
             (case mkdirError P fs d of
                Some e \<Rightarrow> (Some e, fs)
              | None \<Rightarrow> mkdirs P ds (fs(d \<mapsto> Dir)))))"

definition mkdirRecursive :: "platform \<Rightarrow> string list \<Rightarrow> filesystem \<Rightarrow> string option \<times> filesystem" where
  "mkdirRecursive P segs fs = mkdirs P (prefixes segs) fs"

text \<open>
  \<^verbatim>\<open>fs.writeFile(p, data)\<close> with a string: the file is opened with the flag \<^verbatim>\<open>w\<close> and
  its content replaced. The first component is the error, if there is one.
\<close>

definition writeFile ::
  "platform \<Rightarrow> string \<Rightarrow> string \<Rightarrow> string \<Rightarrow> filesystem \<Rightarrow> string option \<times> filesystem" where
  "writeFile P cwd p data fs =
     (let segs = resolveSegs cwd p in
      if segs = [] \<or> fs segs = Some Dir then (Some ''EISDIR'', fs)
      else if p \<noteq> [] \<and> last p = CHR ''/'' then
        (Some (if isFile (fs segs) then ''ENOTDIR'' else ''EISDIR''), fs)
      else if butlast segs \<noteq> [] \<and> isFile (fs (butlast segs)) then (Some ''ENOTDIR'', fs)
      else if butlast segs \<noteq> [] \<and> fs (butlast segs) = None then (Some ''ENOENT'', fs)
      else
        (case writeError P fs segs data of
           Some (e, None) \<Rightarrow> (Some e, fs)
         | Some (e, Some left) \<Rightarrow> (Some e, fs(segs \<mapsto> File left))
         | None \<Rightarrow> (None, fs(segs \<mapsto> File data))))"

text \<open>
  The reads of the extractor, served by a file system. A path that ends in a slash
  names a directory: it exists only as a directory, and no file is read through it.
\<close>

definition fsReadEnv :: "platform \<Rightarrow> string \<Rightarrow> filesystem \<Rightarrow> read_env" where
  "fsReadEnv P cwd fs =
     \<lparr>existsSync = (\<lambda>p.
        (let segs = resolveSegs cwd p in
         if segs = [] then True
         else if p \<noteq> [] \<and> last p = CHR ''/'' then fs segs = Some Dir
         else fs segs \<noteq> None)),
      readFile = (\<lambda>p.
        (let segs = resolveSegs cwd p in
         if p \<noteq> [] \<and> last p = CHR ''/'' then None
         else
           (case fs segs of
              Some (File c) \<Rightarrow> (if readError P fs segs = None then Some c else None)
            | _ \<Rightarrow> None)))\<rparr>"

section \<open>The fix applicator\<close>

text \<open>
  A property of a parsed object; a key given twice has its last value. The value of
  \<^verbatim>\<open>file.filename\<close> when it is a string: \<^verbatim>\<open>path.join\<close> raises a \<^verbatim>\<open>TypeError\<close> on
  anything else. \<open>contentField\<close> is \<^verbatim>\<open>file.content\<close>, \<open>None\<close> when it is undefined.
\<close>

definition field :: "string \<Rightarrow> (string \<times> json) list \<Rightarrow> json option" where
  "field k kvs = map_of (rev kvs) k"

definition stringField :: "string \<Rightarrow> json \<Rightarrow> string option" where
  "stringField k j =
     (case j of
        JObj kvs \<Rightarrow> (case field k kvs of Some (JStr v) \<Rightarrow> Some v | _ \<Rightarrow> None)
      | _ \<Rightarrow> None)"

definition contentField :: "json \<Rightarrow> json option" where
  "contentField j = (case j of JObj kvs \<Rightarrow> field ''content'' kvs | _ \<Rightarrow> None)"

fun contentJson :: "file_content \<Rightarrow> json" where
  "contentJson (Text text) = JStr text"
| "contentJson (Chunks chunks) = JArr chunks"

definition fileJson :: "fix_file \<Rightarrow> json" where
  "fileJson f = JObj [(''filename'', JStr (filename f)), (''content'', contentJson (content f))]"

text \<open>
  What \<^verbatim>\<open>fs.writeFile\<close> makes of one chunk of an iterable, \<^verbatim>\<open>Buffer.from(chunk,\<close>
  \<^verbatim>\<open>'utf8')\<close>: a string gives its text, and \<^verbatim>\<open>null\<close>, a boolean and a number raise a
  \<^verbatim>\<open>TypeError\<close>. \<open>writeChunks\<close> is the loop over the chunks: the text written, and
  whether the loop came to its end.
\<close>

definition chunkData :: "(json \<Rightarrow> string option) \<Rightarrow> json \<Rightarrow> string option" where
  "chunkData fromObject chunk =
     (case chunk of
        JStr text \<Rightarrow> Some text
      | JArr vs \<Rightarrow> fromObject chunk
      | JObj kvs \<Rightarrow> fromObject chunk
      | _ \<Rightarrow> None)"

fun writeChunks :: "(json \<Rightarrow> string option) \<Rightarrow> json list \<Rightarrow> string \<times> bool" where
  "writeChunks fromObject [] = ([], True)"
| "writeChunks fromObject (chunk # chunks) =
     (case chunkData fromObject chunk of
        None \<Rightarrow> ([], False)
      | Some d \<Rightarrow> (case writeChunks fromObject chunks of (rest, ok) \<Rightarrow> (d @ rest, ok)))"

text \<open>The text that a write of the content leaves in the file.\<close>

fun dataOf :: "(json \<Rightarrow> string option) \<Rightarrow> file_content \<Rightarrow> string" where
  "dataOf fromObject (Text text) = text"
| "dataOf fromObject (Chunks chunks) = fst (writeChunks fromObject chunks)"

text \<open>
  \<^verbatim>\<open>fs.writeFile(filePath, file.content)\<close>. A string is written. An array is an
  iterable: the file is opened, which empties it, and the chunks are written one
  after the other until one of them is no data; then the chunks before it stay in the
  file. Anything else (\<^verbatim>\<open>undefined\<close>, \<^verbatim>\<open>null\<close>, a boolean, a number, an object) is
  refused before the file is opened.
\<close>

definition writeFileData ::
  "platform \<Rightarrow> string \<Rightarrow> string \<Rightarrow> json option \<Rightarrow> filesystem
     \<Rightarrow> (string + file_content) \<times> filesystem" where
  "writeFileData P cwd p data fs =
     (case data of
        Some (JStr text) \<Rightarrow>
          (case writeFile P cwd p text fs of
             (Some e, fs1) \<Rightarrow> (Inl e, fs1)
           | (None, fs1) \<Rightarrow> (Inr (Text text), fs1))
      | Some (JArr chunks) \<Rightarrow>
          (case writeChunks (bufferFrom P) chunks of
             (written, ok) \<Rightarrow>
               (case writeFile P cwd p written fs of
                  (Some e, fs1) \<Rightarrow> (Inl e, fs1)
                | (None, fs1) \<Rightarrow>
                    (if ok then (Inr (Chunks chunks), fs1) else (Inl ''TypeError: chunk'', fs1))))
      | _ \<Rightarrow> (Inl ''TypeError: data'', fs))"

text \<open>
  The loop \<^verbatim>\<open>for (const file of result.files)\<close>: join, \<^verbatim>\<open>mkdir\<close> of the directory,
  \<^verbatim>\<open>writeFile\<close>. The first error ends the loop and leaves what was written before it.
  On success the files are returned as they were written.
\<close>

fun applyFixes ::
  "platform \<Rightarrow> string \<Rightarrow> string \<Rightarrow> json list \<Rightarrow> filesystem
     \<Rightarrow> (string + fix_file list) \<times> filesystem" where
  "applyFixes P cwd projectDir [] fs = (Inr [], fs)"
| "applyFixes P cwd projectDir (file # rest) fs =
     (case stringField ''filename'' file of
        None \<Rightarrow> (Inl ''TypeError: path'', fs)
      | Some name \<Rightarrow>
          (let filePath = path_join projectDir name in
           case mkdirRecursive P (resolveSegs cwd (path_dirname filePath)) fs of
             (Some e, fs1) \<Rightarrow> (Inl e, fs1)
           | (None, fs1) \<Rightarrow>
               (case writeFileData P cwd filePath (contentField file) fs1 of
                  (Inl e, fs2) \<Rightarrow> (Inl e, fs2)
                | (Inr written, fs2) \<Rightarrow>
                    (case applyFixes P cwd projectDir rest fs2 of
                       (Inl e, fs3) \<Rightarrow> (Inl e, fs3)
                     | (Inr others, fs3) \<Rightarrow>
                         (Inr (\<lparr>filename = name, content = written\<rparr> # others), fs3)))))"

text \<open>Where the applicator writes a file: the segments of the joined path.\<close>

definition target :: "string \<Rightarrow> string \<Rightarrow> fix_file \<Rightarrow> string list" where
  "target cwd projectDir f = resolveSegs cwd (path_join projectDir (filename f))"

definition targetDir :: "string \<Rightarrow> string \<Rightarrow> fix_file \<Rightarrow> string list" where
  "targetDir cwd projectDir f =
     resolveSegs cwd (path_dirname (path_join projectDir (filename f)))"

text \<open>
  A platform for the examples, which rejects nothing. The chunks of the examples are
  strings, so \<open>bufferFrom\<close> is never asked. And a file system with the directory
  \<^verbatim>\<open>/proj\<close> and nothing in it.
\<close>

definition plainPlatform :: platform where
  "plainPlatform =
     \<lparr>mkdirError = (\<lambda>fs d. None), writeError = (\<lambda>fs segs data. None),
      readError = (\<lambda>fs segs. None), bufferFrom = (\<lambda>j. None)\<rparr>"

definition projOnly :: filesystem where
  "projOnly = (\<lambda>q. if q = [''proj''] then Some Dir else None)"

section \<open>The fix requestor\<close>

text \<open>
  The prompt, as the values that the template is filled with: the diagram, the
  history, the relevant files and the error text.
\<close>

record prompt =
  promptDiagram :: string
  promptHistory :: "history_entry list"
  promptFiles :: "relevant_file list"
  promptErrorText :: string

text \<open>
  \<^verbatim>\<open>auditData\<close>. A field that the script has not assigned is \<open>None\<close>; \<^verbatim>\<open>response\<close>
  starts as \<^verbatim>\<open>null\<close>. The time stamp is left out.
\<close>

record audit_data =
  auditAttempt :: nat
  auditError :: error_record
  auditRelevantFiles :: "string list"
  auditPrompt :: prompt
  auditResponse :: "(string \<times> json) list option"
  auditSuccess :: bool
  rawResponse :: "string option"
  parseError :: "string option"
  jsonFragment :: "string option"
  apiError :: "string option"

text \<open>
  What \<^verbatim>\<open>fixDeploymentErrors\<close> is given from outside: the API key, the answer of
  the endpoint to a prompt (\<open>Inl\<close> when the request fails or the answer has no text;
  the text of an answer is a string), \<^verbatim>\<open>JSON.parse\<close> on a text that begins with a
  brace, which gives an object, and on a text that begins with a bracket, which gives
  an array (\<open>Inl\<close> is the message of the \<^verbatim>\<open>SyntaxError\<close>), the working directory, and
  the platform. For \<^verbatim>\<open>logAudit\<close>: \<open>auditStamp n\<close> is the time stamp that the call of
  \<^verbatim>\<open>logAudit\<close> after \<open>n\<close> earlier calls reads,
  \<^verbatim>\<open>new Date().toISOString().replace(/[:.]/g, '-')\<close>, which has the precision of a
  millisecond; \<open>stringify\<close> is \<^verbatim>\<open>JSON.stringify(data, null, 2)\<close> on an audit record, and
  \<open>readable\<close> the text of the readable log that the template gives for it.
\<close>

record fix_env =
  apiKey :: "string option"
  post :: "prompt \<Rightarrow> string + string"
  jsonParse :: "string \<Rightarrow> string + (string \<times> json) list"
  jsonParseArray :: "string \<Rightarrow> string + json list"
  workDir :: string
  os :: platform
  auditStamp :: "nat \<Rightarrow> string"
  stringify :: "audit_data \<Rightarrow> string"
  readable :: "audit_data \<Rightarrow> string"

text \<open>
  The world of \<^verbatim>\<open>fixDeploymentErrors\<close>: the file system and the prompts sent, oldest
  first. \<open>auditCalls\<close> lists the records that \<^verbatim>\<open>logAudit\<close> was called with, written or
  not.
\<close>

record fix_world =
  fileSystem :: filesystem
  requests :: "prompt list"
  auditCalls :: "audit_data list"

text \<open>The number \<open>n\<close> in a template literal.\<close>

fun decimal :: "nat \<Rightarrow> string" where
  "decimal n = (if n < 10 then [hexDigit n] else decimal (n div 10) @ [hexDigit (n mod 10)])"

declare decimal.simps [simp del]

text \<open>
  The audit directory \<^verbatim>\<open>path.join(projectDir, '.archline-audit')\<close>, and the two files
  of a call of \<^verbatim>\<open>logAudit\<close> in it, \<^verbatim>\<open>fix-attempt-${attempt}-${timestamp}\<close> with the
  endings \<^verbatim>\<open>.json\<close> and \<^verbatim>\<open>.md\<close>.
\<close>

definition auditDir :: "string \<Rightarrow> string" where
  "auditDir projectDir = path_join projectDir ''.archline-audit''"

definition auditName :: "fix_env \<Rightarrow> audit_data \<Rightarrow> fix_world \<Rightarrow> string" where
  "auditName E data w =
     ''fix-attempt-'' @ decimal (auditAttempt data) @ ''-'' @ auditStamp E (length (auditCalls w))"

definition auditLogFile :: "fix_env \<Rightarrow> string \<Rightarrow> audit_data \<Rightarrow> fix_world \<Rightarrow> string" where
  "auditLogFile E projectDir data w = path_join (auditDir projectDir) (auditName E data w @ ''.json'')"

definition readableLog :: "fix_env \<Rightarrow> string \<Rightarrow> audit_data \<Rightarrow> fix_world \<Rightarrow> string" where
  "readableLog E projectDir data w = path_join (auditDir projectDir) (auditName E data w @ ''.md'')"

definition jsonFiles :: "(string \<times> json) list \<Rightarrow> json list" where
  "jsonFiles result = (case field ''files'' result of Some (JArr fs) \<Rightarrow> fs | _ \<Rightarrow> [])"

definition jsonSummary :: "(string \<times> json) list \<Rightarrow> json" where
  "jsonSummary result = (case field ''summary'' result of Some v \<Rightarrow> v | None \<Rightarrow> JNull)"

text \<open>
  Whether the template of the readable log can be filled: it reads
  \<^verbatim>\<open>data.response.summary\<close>, which raises when the response is \<^verbatim>\<open>null\<close>, and
  \<^verbatim>\<open>f.filename\<close> of every file of the response, which raises on a file that is
  \<^verbatim>\<open>null\<close>.
\<close>

definition rendersReadable :: "audit_data \<Rightarrow> bool" where
  "rendersReadable data =
     (case auditResponse data of
        None \<Rightarrow> False
      | Some result \<Rightarrow> list_all (\<lambda>f. f \<noteq> JNull) (jsonFiles result))"

text \<open>
  \<^verbatim>\<open>logAudit\<close>. The whole body is in a \<^verbatim>\<open>try\<close> whose \<^verbatim>\<open>catch\<close> only warns: the
  directory is made, the time is read, the record is written, and then the readable
  log; an error at any of these ends the function there.
\<close>

definition logAudit :: "fix_env \<Rightarrow> string \<Rightarrow> audit_data \<Rightarrow> fix_world \<Rightarrow> fix_world" where
  "logAudit E projectDir data w =
     (let cwd = workDir E;
          w1 = w\<lparr>auditCalls := auditCalls w @ [data]\<rparr>
      in case mkdirRecursive (os E) (resolveSegs cwd (auditDir projectDir)) (fileSystem w) of
           (Some e, fs1) \<Rightarrow> w1\<lparr>fileSystem := fs1\<rparr>
         | (None, fs1) \<Rightarrow>
             (case writeFile (os E) cwd (auditLogFile E projectDir data w) (stringify E data) fs1 of
                (Some e, fs2) \<Rightarrow> w1\<lparr>fileSystem := fs2\<rparr>
              | (None, fs2) \<Rightarrow>
                  (if rendersReadable data
                   then w1\<lparr>fileSystem :=
                          snd (writeFile (os E) cwd (readableLog E projectDir data w)
                                 (readable E data) fs2)\<rparr>
                   else w1\<lparr>fileSystem := fs2\<rparr>)))"

text \<open>
  The directory of the audit records can be made and the write of the record is not
  rejected, for a call of \<^verbatim>\<open>logAudit\<close> in the world \<open>w\<close>.
\<close>

definition recordsAudit :: "fix_env \<Rightarrow> string \<Rightarrow> audit_data \<Rightarrow> fix_world \<Rightarrow> bool" where
  "recordsAudit E projectDir data w =
     (case mkdirRecursive (os E) (resolveSegs (workDir E) (auditDir projectDir)) (fileSystem w) of
        (Some e, fs1) \<Rightarrow> False
      | (None, fs1) \<Rightarrow>
          fst (writeFile (os E) (workDir E) (auditLogFile E projectDir data w) (stringify E data) fs1)
            = None)"

text \<open>\<^verbatim>\<open>responseText.match(/\{[\s\S]*\}/)\<close>: from the first opening brace to the last
  closing brace after it.\<close>

definition jsonMatch :: "string \<Rightarrow> string option" where
  "jsonMatch responseText =
     (let r = dropWhile (\<lambda>c. c \<noteq> CHR ''{'') responseText
      in if CHR ''}'' \<in> set r then Some (rev (dropWhile (\<lambda>c. c \<noteq> CHR ''}'') (rev r)))
         else None)"

fun truthy :: "json option \<Rightarrow> bool" where
  "truthy None = False"
| "truthy (Some JNull) = False"
| "truthy (Some (JBool b)) = b"
| "truthy (Some (JNum n)) = (n \<noteq> 0)"
| "truthy (Some (JStr v)) = (v \<noteq> [])"
| "truthy (Some (JArr vs)) = True"
| "truthy (Some (JObj kvs)) = True"

definition setField :: "string \<Rightarrow> json \<Rightarrow> (string \<times> json) list \<Rightarrow> (string \<times> json) list" where
  "setField k v kvs = kvs @ [(k, v)]"

text \<open>\<^verbatim>\<open>!result.files || !Array.isArray(result.files) || result.files.length === 0\<close>\<close>

fun lacksFiles :: "json option \<Rightarrow> bool" where
  "lacksFiles (Some (JArr (f # fs))) = False"
| "lacksFiles other = True"

text \<open>
  The body of the inner \<^verbatim>\<open>try\<close>: parse, default the summary, check the files. \<open>Inl\<close>
  is the message of the error that the inner \<^verbatim>\<open>catch\<close> receives.
\<close>

definition parseResult ::
  "(string \<Rightarrow> string + (string \<times> json) list) \<Rightarrow> string \<Rightarrow> string + (string \<times> json) list" where
  "parseResult parse fragment =
     (case parse fragment of
        Inl e \<Rightarrow> Inl e
      | Inr result \<Rightarrow>
          (let result1 =
                 (if \<not> truthy (field ''summary'' result)
                  then setField ''summary'' (JStr ''No summary provided'') result
                  else result)
           in if lacksFiles (field ''files'' result1)
              then Inl ''No files included in the response''
              else Inr result1))"

text \<open>
  How the parsing of a response fails: \<open>thrown\<close> is the message of the error that
  leaves the parsing, \<open>caught\<close> the message that the inner \<^verbatim>\<open>catch\<close> received and
  stored as \<^verbatim>\<open>parseError\<close>, if it ran.
\<close>

record parse_failure =
  thrown :: string
  caught :: "string option"

definition parseFixResponse ::
  "(string \<Rightarrow> string + (string \<times> json) list) \<Rightarrow> string \<Rightarrow> parse_failure + (string \<times> json) list" where
  "parseFixResponse parse responseText =
     (case jsonMatch responseText of
        None \<Rightarrow>
          Inl \<lparr>thrown = ''Could not find properly formatted JSON response from Claude'',
               caught = None\<rparr>
      | Some fragment \<Rightarrow>
          (case parseResult parse fragment of
             Inl e \<Rightarrow> Inl \<lparr>thrown = ''Invalid JSON format in Claude's response'', caught = Some e\<rparr>
           | Inr result \<Rightarrow> Inr result))"

text \<open>
  The outer \<^verbatim>\<open>catch\<close>: the message goes into the audit record, the record is logged,
  and one and the same error is raised.
\<close>

definition outerCatch ::
  "fix_env \<Rightarrow> string \<Rightarrow> string \<Rightarrow> audit_data \<Rightarrow> fix_world \<Rightarrow> (string + fix_result) \<times> fix_world" where
  "outerCatch E projectDir msg auditData w =
     (Inl ''Failed to get fixes from Claude'',
      logAudit E projectDir (auditData\<lparr>apiError := Some msg\<rparr>) w)"

text \<open>
  The first part of \<^verbatim>\<open>fixDeploymentErrors\<close>: the relevant files, with the fallback to
  \<^verbatim>\<open>lib/stack.ts\<close> when there are none, the prompt, and the audit record as it is
  first made.
\<close>

definition errorTextOf :: "error_record \<Rightarrow> string" where
  "errorTextOf err = stdout err @ [CHR 0x0A] @ stderr err"

definition relevantFor :: "fix_env \<Rightarrow> string \<Rightarrow> error_record \<Rightarrow> fix_world \<Rightarrow> relevant_file list" where
  "relevantFor E projectDir err w =
     (let rd = fsReadEnv (os E) (workDir E) (fileSystem w);
          found = extractRelevantFiles rd (workDir E) (errorTextOf err) projectDir
      in if length found = 0 then
           (case readFile rd (path_join projectDir ''lib/stack.ts'') of
              Some c \<Rightarrow> [\<lparr>path = ''lib/stack.ts'', fileContent = c\<rparr>]
            | None \<Rightarrow> [])
         else found)"

definition requestFor ::
  "fix_env \<Rightarrow> string \<Rightarrow> string \<Rightarrow> error_record \<Rightarrow> history_entry list \<Rightarrow> fix_world \<Rightarrow> prompt" where
  "requestFor E projectDir plantUmlContent err history w =
     \<lparr>promptDiagram = plantUmlContent, promptHistory = history,
      promptFiles = relevantFor E projectDir err w, promptErrorText = errorTextOf err\<rparr>"

definition initialAudit ::
  "fix_env \<Rightarrow> string \<Rightarrow> string \<Rightarrow> error_record \<Rightarrow> history_entry list \<Rightarrow> fix_world \<Rightarrow> audit_data" where
  "initialAudit E projectDir plantUmlContent err history w =
     \<lparr>auditAttempt = length history + 1, auditError = err,
      auditRelevantFiles = map path (relevantFor E projectDir err w),
      auditPrompt = requestFor E projectDir plantUmlContent err history w,
      auditResponse = None, auditSuccess = False, rawResponse = None,
      parseError = None, jsonFragment = None, apiError = None\<rparr>"

text \<open>\<^verbatim>\<open>fixDeploymentErrors\<close> of the debug script.\<close>

definition fixDeploymentErrors ::
  "fix_env \<Rightarrow> string \<Rightarrow> string \<Rightarrow> error_record \<Rightarrow> history_entry list \<Rightarrow> fix_world
     \<Rightarrow> (string + fix_result) \<times> fix_world" where
  "fixDeploymentErrors E projectDir plantUmlContent err history w =
     (if apiKey E = None \<or> apiKey E = Some [] then
        (Inl ''Anthropic API key is not set. Please set the ANTHROPIC_API_KEY environment variable.'',
         w)
      else
        (let cwd = workDir E;
             request = requestFor E projectDir plantUmlContent err history w;
             auditData = initialAudit E projectDir plantUmlContent err history w;
             w1 = w\<lparr>requests := requests w @ [request]\<rparr>
         in case post E request of
              Inl e \<Rightarrow> outerCatch E projectDir e auditData w1
            | Inr responseText \<Rightarrow>
                (let auditData1 = auditData\<lparr>rawResponse := Some responseText\<rparr>
                 in case parseFixResponse (jsonParse E) responseText of
                      Inl failure \<Rightarrow>
                        (case caught failure of
                           None \<Rightarrow> outerCatch E projectDir (thrown failure) auditData1 w1
                         | Some e \<Rightarrow>
                             (let auditData2 =
                                    auditData1\<lparr>parseError := Some e,
                                               jsonFragment := jsonMatch responseText\<rparr>
                              in outerCatch E projectDir (thrown failure) auditData2
                                   (logAudit E projectDir auditData2 w1)))
                    | Inr result \<Rightarrow>
                        (let auditData2 = auditData1\<lparr>auditResponse := Some result\<rparr>
                         in case applyFixes (os E) cwd projectDir (jsonFiles result) (fileSystem w1) of
                              (Inl e, fs1) \<Rightarrow>
                                outerCatch E projectDir e auditData2 (w1\<lparr>fileSystem := fs1\<rparr>)
                            | (Inr written, fs1) \<Rightarrow>
                                (Inr \<lparr>fixedFiles = written, summary = jsonSummary result\<rparr>,
                                 logAudit E projectDir (auditData2\<lparr>auditSuccess := True\<rparr>)
                                   (w1\<lparr>fileSystem := fs1\<rparr>))))))"

text \<open>
  \<^verbatim>\<open>fixDeploymentErrors\<close> of the fix-cdk-errors script. The answer is to hold a JSON
  array of files, matched by \<^verbatim>\<open>/\[[\s\S]*\]/\<close>. There is no summary, no check of the
  array and no audit record; every error inside the \<^verbatim>\<open>try\<close> is raised again as one
  and the same error.
\<close>

definition jsonMatchArray :: "string \<Rightarrow> string option" where
  "jsonMatchArray responseText =
     (let r = dropWhile (\<lambda>c. c \<noteq> CHR ''['') responseText
      in if CHR '']'' \<in> set r then Some (rev (dropWhile (\<lambda>c. c \<noteq> CHR '']'') (rev r)))
         else None)"

definition relevantFor2 :: "fix_env \<Rightarrow> string \<Rightarrow> error_record \<Rightarrow> fix_world \<Rightarrow> relevant_file list" where
  "relevantFor2 E projectDir err w =
     (let rd = fsReadEnv (os E) (workDir E) (fileSystem w);
          found = extractRelevantFiles2 rd (workDir E) (errorTextOf err) projectDir
      in if length found = 0 then
           (case readFile rd (path_join projectDir ''lib/stack.ts'') of
              Some c \<Rightarrow> [\<lparr>path = ''lib/stack.ts'', fileContent = c\<rparr>]
            | None \<Rightarrow> [])
         else found)"

definition fixDeploymentErrors2 ::
  "fix_env \<Rightarrow> string \<Rightarrow> string \<Rightarrow> error_record \<Rightarrow> history_entry list \<Rightarrow> fix_world
     \<Rightarrow> (string + fix_file list) \<times> fix_world" where
  "fixDeploymentErrors2 E projectDir plantUmlContent err history w =
     (if apiKey E = None \<or> apiKey E = Some [] then
        (Inl ''Anthropic API key is not set. Please set the ANTHROPIC_API_KEY environment variable.'',
         w)
      else
        (let request = \<lparr>promptDiagram = plantUmlContent, promptHistory = history,
                        promptFiles = relevantFor2 E projectDir err w,
                        promptErrorText = errorTextOf err\<rparr>;
             w1 = w\<lparr>requests := requests w @ [request]\<rparr>
         in case post E request of
              Inl e \<Rightarrow> (Inl ''Failed to get fixes from Claude'', w1)
            | Inr responseText \<Rightarrow>
                (case jsonMatchArray responseText of
                   None \<Rightarrow> (Inl ''Failed to get fixes from Claude'', w1)
                 | Some fragment \<Rightarrow>
                     (case jsonParseArray E fragment of
                        Inl e \<Rightarrow> (Inl ''Failed to get fixes from Claude'', w1)
                      | Inr fixed \<Rightarrow>
                          (case applyFixes (os E) (workDir E) projectDir fixed (fileSystem w1) of
                             (Inl e, fs1) \<Rightarrow>
                               (Inl ''Failed to get fixes from Claude'', w1\<lparr>fileSystem := fs1\<rparr>)
                           | (Inr written, fs1) \<Rightarrow> (Inr written, w1\<lparr>fileSystem := fs1\<rparr>))))))"

text \<open>
  An environment and a world for the examples. The endpoint answers every prompt with
  the given result. \<^verbatim>\<open>JSON.parse\<close> accepts three texts: an object with the one file
  \<^verbatim>\<open>lib/a.ts\<close> and the content \<^verbatim>\<open>X\<close>, an object with the same file and the content
  \<^verbatim>\<open>["X", "Y"]\<close>, and an object with nothing in it. Every call of \<^verbatim>\<open>logAudit\<close> reads
  the same time, and of a record only the success flag and the error message are
  written. The project \<^verbatim>\<open>/proj\<close> is an empty directory.
\<close>

definition exampleStringify :: "audit_data \<Rightarrow> string" where
  "exampleStringify data =
     (if auditSuccess data then ''success'' else ''failure'')
     @ (case apiError data of None \<Rightarrow> [] | Some e \<Rightarrow> '': '' @ e)"

definition exampleEnv :: "(string + string) \<Rightarrow> fix_env" where
  "exampleEnv answer =
     \<lparr>apiKey = Some ''key'',
      post = (\<lambda>p. answer),
      jsonParse = (\<lambda>fragment.
        if fragment = ''{files}''
        then Inr [(''files'', JArr [fileJson \<lparr>filename = ''lib/a.ts'', content = Text ''X''\<rparr>])]
        else if fragment = ''{chunks}''
        then Inr [(''files'', JArr [fileJson \<lparr>filename = ''lib/a.ts'',
                                              content = Chunks [JStr ''X'', JStr ''Y'']\<rparr>])]
        else if fragment = ''{}'' then Inr []
        else Inl ''Unexpected token''),
      jsonParseArray = (\<lambda>fragment.
        if fragment = ''[]'' then Inr [] else Inl ''Unexpected token''),
      workDir = ''/proj'',
      os = plainPlatform,
      auditStamp = (\<lambda>n. ''T''),
      stringify = exampleStringify,
      readable = (\<lambda>data. ''readable'')\<rparr>"

definition exampleWorld :: "filesystem \<Rightarrow> fix_world" where
  "exampleWorld fs = \<lparr>fileSystem = fs, requests = [], auditCalls = []\<rparr>"

definition exampleError :: error_record where
  "exampleError = \<lparr>message = ''Command failed'', stdout = [], stderr = ''error''\<rparr>"

text \<open>The project \<^verbatim>\<open>/proj\<close> with a file named \<^verbatim>\<open>.archline-audit\<close> in it.\<close>

definition projBlocked :: filesystem where
  "projBlocked =
     (\<lambda>q. if q = [''proj''] then Some Dir
          else if q = [''proj'', ''.archline-audit''] then Some (File []) else None)"

text \<open>
  What a call of \<^verbatim>\<open>fixDeploymentErrors\<close> with an API key leaves behind: one request,
  and a last call of \<^verbatim>\<open>logAudit\<close>, made in a world \<open>wb\<close>, after which nothing else is
  done. The record \<open>r\<close> of that call holds the prompt, the success flag, the raw
  response if there was one, the parsed result if the parsing succeeded and the parse
  error if the inner \<^verbatim>\<open>catch\<close> ran. If the audit directory could be made and the write
  of the record was not rejected, the file of the record holds the record.
\<close>

definition auditPost ::
  "fix_env \<Rightarrow> string \<Rightarrow> prompt \<Rightarrow> fix_world \<Rightarrow> (string + fix_result) \<Rightarrow> fix_world \<Rightarrow> bool" where
  "auditPost E projectDir request w res w' \<longleftrightarrow>
     requests w' = requests w @ [request]
     \<and> (\<exists>earlier r wb.
          auditCalls w' = auditCalls w @ earlier @ [r]
          \<and> auditCalls wb = auditCalls w @ earlier
          \<and> w' = logAudit E projectDir r wb
          \<and> auditPrompt r = request
          \<and> auditSuccess r = (\<not> isl res)
          \<and> (isl res \<longleftrightarrow> apiError r \<noteq> None)
          \<and> rawResponse r = (case post E request of Inl e \<Rightarrow> None | Inr t \<Rightarrow> Some t)
          \<and> auditResponse r =
              (case post E request of
                 Inl e \<Rightarrow> None
               | Inr t \<Rightarrow> (case parseFixResponse (jsonParse E) t of
                             Inl f \<Rightarrow> None | Inr result \<Rightarrow> Some result))
          \<and> parseError r =
              (case post E request of
                 Inl e \<Rightarrow> None
               | Inr t \<Rightarrow>
                   (case jsonMatch t of
                      None \<Rightarrow> None
                    | Some fragment \<Rightarrow>
                        (case parseResult (jsonParse E) fragment of
                           Inl e \<Rightarrow> Some e | Inr result \<Rightarrow> None)))
          \<and> (recordsAudit E projectDir r wb
               \<and> CHR ''/'' \<notin> set (auditStamp E (length (auditCalls wb))) \<longrightarrow>
               fileSystem w' (resolveSegs (workDir E) (auditLogFile E projectDir r wb))
                 = Some (File (stringify E r))))"

text \<open>
  What the loops of the extractor keep true. \<open>P\<close> is a property of the paths that
  are entered into the result.
\<close>

definition extractInv :: "read_env \<Rightarrow> string \<Rightarrow> (string \<Rightarrow> bool) \<Rightarrow> extract_state \<Rightarrow> bool" where
  "extractInv rd projectDir P st \<longleftrightarrow>
     distinct (map path (relevantFiles st))
     \<and> distinct (map fst (reads st))
     \<and> (\<forall>f \<in> set (relevantFiles st).
           path f \<in> filesMentioned st \<and> P (path f)
           \<and> readFile rd (path_join projectDir (path f)) = Some (fileContent f)
           \<and> (path f, path_join projectDir (path f)) \<in> set (reads st))
     \<and> (\<forall>r \<in> set (reads st). fst r \<in> filesMentioned st \<and> snd r = path_join projectDir (fst r))"

text \<open>
  A path of the result comes from a match that the filter let through: it is the
  normalised match, or the source path of a normalised match under \<^verbatim>\<open>dist/\<close>.
\<close>

definition fromMatch :: "string \<Rightarrow> string \<Rightarrow> string list \<Rightarrow> string \<Rightarrow> bool" where
  "fromMatch cwd projectDir ms p \<longleftrightarrow>
     (\<exists>m \<in> set ms. \<not> skipped m
        \<and> (p = normalizeFilePath cwd m projectDir
            \<or> (prefix ''dist/'' (normalizeFilePath cwd m projectDir)
                \<and> p = distToSource (normalizeFilePath cwd m projectDir))))"

definition fromMatch2 :: "string \<Rightarrow> string \<Rightarrow> string list \<Rightarrow> string \<Rightarrow> bool" where
  "fromMatch2 cwd projectDir ms p \<longleftrightarrow>
     (\<exists>m \<in> set ms. \<not> skipped m \<and> p = relativizeInProject cwd m projectDir)"

text \<open>A file name: not empty, not \<^verbatim>\<open>.\<close> or \<^verbatim>\<open>..\<close>, and without a slash.\<close>

definition plainName :: "string \<Rightarrow> bool" where
  "plainName seg \<longleftrightarrow> seg \<noteq> [] \<and> seg \<noteq> ''.'' \<and> seg \<noteq> ''..'' \<and> CHR ''/'' \<notin> set seg"

text \<open>
  The path with the names \<open>ts\<close> follows the directory with the names \<open>ps\<close> up to the
  last name of \<open>ps\<close> and goes on with a name that begins with that name, as
  \<^verbatim>\<open>/home/project2/a.ts\<close> does for \<^verbatim>\<open>/home/proj\<close>.
\<close>

definition nameExtends :: "string list \<Rightarrow> string list \<Rightarrow> bool" where
  "nameExtends ps ts \<longleftrightarrow>
     ps \<noteq> [] \<and> length ps \<le> length ts \<and> take (length ps - 1) ts = butlast ps
     \<and> prefix (last ps) (ts ! (length ps - 1))"

text \<open>A file system in which every file can be read, for the examples.\<close>

definition readAll :: read_env where
  "readAll = \<lparr>existsSync = (\<lambda>p. True), readFile = (\<lambda>p. Some ''content'')\<rparr>"

section \<open>Observations on a run\<close>

fun isDeploy :: "event \<Rightarrow> bool" where
  "isDeploy (DeployStep a b) = True"
| "isDeploy e = False"

fun isFix :: "event \<Rightarrow> bool" where
  "isFix (FixStep a b) = True"
| "isFix e = False"

fun isFixOk :: "event \<Rightarrow> bool" where
  "isFixOk (FixStep a b) = b"
| "isFixOk e = False"

fun isFailedDeploy :: "event \<Rightarrow> bool" where
  "isFailedDeploy (DeployStep a b) = (\<not> b)"
| "isFailedDeploy e = False"

fun isDeployOk :: "event \<Rightarrow> bool" where
  "isDeployOk (DeployStep a b) = b"
| "isDeployOk e = False"

definition deployCount :: "event list \<Rightarrow> nat" where
  "deployCount tr = length (filter isDeploy tr)"

definition fixCount :: "event list \<Rightarrow> nat" where
  "fixCount tr = length (filter isFix tr)"

definition fixOkCount :: "event list \<Rightarrow> nat" where
  "fixOkCount tr = length (filter isFixOk tr)"

text \<open>The deploy and fix steps of a run, in order, without the log writes.\<close>

definition steps :: "event list \<Rightarrow> event list" where
  "steps tr = filter (\<lambda>e. isDeploy e \<or> isFix e) tr"

text \<open>Every deploy step of the run failed.\<close>

definition allDeploysFailed :: "event list \<Rightarrow> bool" where
  "allDeploysFailed tr = (\<not> list_ex isDeployOk tr)"

text \<open>
  A fix step comes directly after a failed deploy step, and the last step of a run is
  a deploy step.
\<close>

definition fixAfterFailedDeploy :: "event list \<Rightarrow> bool" where
  "fixAfterFailedDeploy st =
     ((\<forall>i < length st. isFix (st ! i) \<longrightarrow> 0 < i \<and> isFailedDeploy (st ! (i - 1)))
      \<and> (st \<noteq> [] \<longrightarrow> isDeploy (last st)))"

text \<open>
  The invariant of the loop, between two rounds: \<open>a\<close> is the value of \<^verbatim>\<open>attempt\<close>.
\<close>

definition loopInv :: "int \<Rightarrow> 'w run_state \<Rightarrow> bool" where
  "loopInv a s \<longleftrightarrow>
     0 \<le> a \<and> deployCount (trace s) = nat a \<and> fixCount (trace s) = nat a - 1
     \<and> (a = 0 \<longrightarrow> lastError s = None)
     \<and> (0 < a \<and> \<not> success s \<longrightarrow> lastError s \<noteq> None)
     \<and> (success s \<longleftrightarrow> \<not> allDeploysFailed (trace s))
     \<and> length (fixHistory s) = fixOkCount (trace s)
     \<and> fixAfterFailedDeploy (steps (trace s))
     \<and> (steps (trace s) \<noteq> [] \<longrightarrow> isFailedDeploy (last (steps (trace s))) = (\<not> success s))
     \<and> (a = 0 \<longrightarrow> steps (trace s) = [])
     \<and> (0 < a \<longrightarrow> steps (trace s) \<noteq> [])
     \<and> allDeploysFailed (butlast (steps (trace s)))
     \<and> (\<forall>b. HistoryWrite b \<notin> set (trace s))"

text \<open>What holds of the exit code and the final state of \<^verbatim>\<open>main\<close>.\<close>

definition runPost :: "int \<Rightarrow> int \<Rightarrow> 'w run_state \<Rightarrow> bool" where
  "runPost N code s \<longleftrightarrow>
     (\<exists>a. 0 \<le> a \<and> a \<le> max 0 N \<and> deployCount (trace s) = nat a \<and> fixCount (trace s) = nat a - 1)
     \<and> fixAfterFailedDeploy (steps (trace s))
     \<and> allDeploysFailed (butlast (steps (trace s)))
     \<and> length (fixHistory s) = fixOkCount (trace s)
     \<and> (code = 0 \<or> code = 1)
     \<and> (code = 1 \<longleftrightarrow> allDeploysFailed (trace s) \<or> HistoryWrite False \<in> set (trace s))"

section \<open>Scripted environments\<close>

text \<open>
  A world that counts the deployments made so far. Deployment number \<open>w\<close> (from 0)
  succeeds when \<open>deployOk w\<close>; the fix step requested after \<open>w\<close> failed deployments
  succeeds when \<open>fixOk w\<close>; the history file can be written when \<open>historyOk\<close>.
\<close>

definition scriptedEnv :: "(nat \<Rightarrow> bool) \<Rightarrow> (nat \<Rightarrow> bool) \<Rightarrow> bool \<Rightarrow> nat env" where
  "scriptedEnv deployOk fixOk historyOk =
     \<lparr>validateProject = (\<lambda>w. (True, w)),
      readDiagram = (\<lambda>w. ([], w)),
      chdir = (\<lambda>w. (True, w)),
      fixOverwrite = (\<lambda>t w. w),
      fixDeploymentErrorsStep = (\<lambda>p e h w.
        (if fixOk w
         then Inr \<lparr>fixedFiles = [\<lparr>filename = ''lib/a.ts'', content = Text ''X''\<rparr>],
                   summary = JStr ''s''\<rparr>
         else Inl ''Failed to get fixes from Claude'', w)),
      deploy = (\<lambda>w.
        (if deployOk w then None
         else Some \<lparr>message = ''Command failed'', stdout = [], stderr = ''error''\<rparr>, Suc w)),
      writeErrorLog = (\<lambda>a e w. (True, w)),
      writeHistory = (\<lambda>h w. (historyOk, w)),
      listExports = (\<lambda>w. w)\<rparr>"


text \<open>
  An environment in which the fix step is \<^verbatim>\<open>fixDeploymentErrors\<close> of the debug
  script, on the world of the fix requestor. Every deployment fails, and all log
  files can be written.
\<close>

definition requestorEnv :: "fix_env \<Rightarrow> string \<Rightarrow> fix_world env" where
  "requestorEnv F projectDir =
     \<lparr>validateProject = (\<lambda>w. (True, w)),
      readDiagram = (\<lambda>w. ([], w)),
      chdir = (\<lambda>w. (True, w)),
      fixOverwrite = (\<lambda>t w. w),
      fixDeploymentErrorsStep = fixDeploymentErrors F projectDir,
      deploy = (\<lambda>w. (Some exampleError, w)),
      writeErrorLog = (\<lambda>a e w. (True, w)),
      writeHistory = (\<lambda>h w. (True, w)),
      listExports = (\<lambda>w. w)\<rparr>"

section \<open>Properties of the retry loop\<close>

lemma overwriteStep_same [simp]:
  "lastError (overwriteStep E s) = lastError s"
  "success (overwriteStep E s) = success s"
  "fixHistory (overwriteStep E s) = fixHistory s"
  "trace (overwriteStep E s) = trace s"
  by (auto simp: overwriteStep_def split: option.splits)

lemma isDeploy_not_isFix: "isDeploy d \<Longrightarrow> \<not> isFix d"
  by (cases d) simp_all

lemma fixAfter_snoc_deploy:
  assumes "fixAfterFailedDeploy st" and "isDeploy d"
  shows "fixAfterFailedDeploy (st @ [d])"
proof -
  have "0 < i \<and> isFailedDeploy ((st @ [d]) ! (i - 1))"
    if "i < length (st @ [d])" and "isFix ((st @ [d]) ! i)" for i
  proof -
    have "i \<noteq> length st"
      using that(2) isDeploy_not_isFix [OF assms(2)] by auto
    with that(1) have lt: "i < length st" by simp
    with that(2) have "isFix (st ! i)" by (simp add: nth_append)
    with assms(1) lt have "0 < i \<and> isFailedDeploy (st ! (i - 1))"
      by (simp add: fixAfterFailedDeploy_def)
    moreover from lt have "i - 1 < length st" by simp
    ultimately show ?thesis by (simp add: nth_append)
  qed
  then show ?thesis
    using assms(2) by (simp add: fixAfterFailedDeploy_def)
qed

lemma fixAfter_snoc_fix_deploy:
  assumes "fixAfterFailedDeploy st" and "st \<noteq> []" and "isFailedDeploy (last st)"
    and "isDeploy d"
  shows "fixAfterFailedDeploy (st @ [f, d])"
proof -
  have "0 < i \<and> isFailedDeploy ((st @ [f, d]) ! (i - 1))"
    if "i < length (st @ [f, d])" and "isFix ((st @ [f, d]) ! i)" for i
  proof -
    have "i \<noteq> Suc (length st)"
      using that(2) isDeploy_not_isFix [OF assms(4)] by (auto simp: nth_append)
    with that(1) consider "i < length st" | "i = length st" by force
    then show ?thesis
    proof cases
      case 1
      with that(2) have "isFix (st ! i)" by (simp add: nth_append)
      with assms(1) 1 have "0 < i \<and> isFailedDeploy (st ! (i - 1))"
        by (simp add: fixAfterFailedDeploy_def)
      moreover from 1 have "i - 1 < length st" by simp
      ultimately show ?thesis by (simp add: nth_append)
    next
      case 2
      with assms(2,3) show ?thesis
        by (simp add: nth_append last_conv_nth)
    qed
  qed
  then show ?thesis
    using assms(4) by (simp add: fixAfterFailedDeploy_def)
qed

lemma count_simps [simp]:
  "deployCount [] = 0" "fixCount [] = 0" "fixOkCount [] = 0" "steps [] = []"
  "deployCount (xs @ ys) = deployCount xs + deployCount ys"
  "fixCount (xs @ ys) = fixCount xs + fixCount ys"
  "fixOkCount (xs @ ys) = fixOkCount xs + fixOkCount ys"
  "steps (xs @ ys) = steps xs @ steps ys"
  "deployCount (e # xs) = (if isDeploy e then 1 else 0) + deployCount xs"
  "fixCount (e # xs) = (if isFix e then 1 else 0) + fixCount xs"
  "fixOkCount (e # xs) = (if isFixOk e then 1 else 0) + fixOkCount xs"
  "steps (e # xs) = (if isDeploy e \<or> isFix e then [e] else []) @ steps xs"
  by (simp_all add: deployCount_def fixCount_def fixOkCount_def steps_def)

lemma allDeploysFailed_simps [simp]:
  "allDeploysFailed [] = True"
  "allDeploysFailed (xs @ ys) = (allDeploysFailed xs \<and> allDeploysFailed ys)"
  "allDeploysFailed (e # xs) = (\<not> isDeployOk e \<and> allDeploysFailed xs)"
  by (auto simp: allDeploysFailed_def list_ex_iff)

lemma allDeploysFailed_steps [simp]: "allDeploysFailed (steps tr) = allDeploysFailed tr"
  by (induction tr) (auto simp: steps_def allDeploysFailed_def elim: isDeployOk.elims)

lemma fixStep_None: "lastError s = None \<Longrightarrow> fixStep E p a s = s"
  by (simp add: fixStep_def)

lemma fixStep_Some:
  assumes "lastError s = Some err"
  obtains ok w hist where
    "fixStep E p a s = s\<lparr>fixHistory := hist, world := w, trace := trace s @ [FixStep a ok]\<rparr>"
    "length hist = length (fixHistory s) + (if ok then 1 else 0)"
proof (cases "fixDeploymentErrorsStep E p err (fixHistory s) (world s)")
  case (Pair r w)
  show ?thesis
  proof (cases r)
    case (Inl e)
    with Pair assms have
      "fixStep E p a s = s\<lparr>fixHistory := fixHistory s, world := w, trace := trace s @ [FixStep a False]\<rparr>"
      by (simp add: fixStep_def)
    then show ?thesis using that [of False w "fixHistory s"] by simp
  next
    case (Inr res)
    show ?thesis
    proof (cases "historyEntry a err res")
      case raised: (Inl e)
      with Inr Pair assms have
        "fixStep E p a s = s\<lparr>fixHistory := fixHistory s, world := w, trace := trace s @ [FixStep a False]\<rparr>"
        by (simp add: fixStep_def)
      then show ?thesis using that [of False w "fixHistory s"] by simp
    next
      case entry: (Inr entry)
      with Inr Pair assms have
        "fixStep E p a s = s\<lparr>fixHistory := fixHistory s @ [entry], world := w,
            trace := trace s @ [FixStep a True]\<rparr>"
        by (simp add: fixStep_def)
      then show ?thesis using that [of True w "fixHistory s @ [entry]"] by simp
    qed
  qed
qed

lemma deployStep_cases:
  obtains (ok) w where "deployStep E a s = (True, s\<lparr>success := True, world := w, trace := trace s @ [DeployStep a True]\<rparr>)"
  | (fail) err w b where "deployStep E a s = (b, s\<lparr>lastError := Some err, world := w,
        trace := trace s @ [DeployStep a False, ErrorLogWrite a b]\<rparr>)"
proof (cases "deploy E (world s)")
  case (Pair r w)
  show ?thesis
  proof (cases r)
    case None
    with Pair show ?thesis using ok by (simp add: deployStep_def)
  next
    case (Some err)
    with Pair show ?thesis using fail
      by (cases "writeErrorLog E a err w") (simp add: deployStep_def)
  qed
qed

lemma fixAfter_Nil [simp]: "fixAfterFailedDeploy []"
  by (simp add: fixAfterFailedDeploy_def)

lemma fixAfter_single: "isDeploy d \<Longrightarrow> fixAfterFailedDeploy [d]"
  using fixAfter_snoc_deploy [of "[]" d] by simp

lemma body_inv:
  assumes inv: "loopInv a s" and ns: "\<not> success s"
    and step: "deployStep E (a + 1) (fixStep E p (a + 1) (overwriteStep E s)) = (ok, s3)"
  shows "loopInv (a + 1) s3 \<and> (\<not> ok \<longrightarrow> \<not> success s3)"
proof -
  let ?s1 = "overwriteStep E s"
  let ?s2 = "fixStep E p (a + 1) ?s1"
  from inv have a0: "0 \<le> a" by (simp add: loopInv_def)
  have s2: "\<not> success ?s2 \<and>
     ((a = 0 \<and> trace ?s2 = trace s \<and> fixHistory ?s2 = fixHistory s)
      \<or> (0 < a \<and> (\<exists>b. trace ?s2 = trace s @ [FixStep (a + 1) b]
            \<and> length (fixHistory ?s2) = length (fixHistory s) + (if b then 1 else 0))))"
  proof (cases "lastError s")
    case None
    then have "?s2 = ?s1" by (simp add: fixStep_None)
    moreover from None inv ns have "a = 0" by (auto simp: loopInv_def)
    ultimately show ?thesis using ns by simp
  next
    case (Some err)
    then have "lastError ?s1 = Some err" by simp
    from fixStep_Some [OF this, of E p "a + 1"] obtain b w hist where
      eq: "?s2 = ?s1\<lparr>fixHistory := hist, world := w, trace := trace ?s1 @ [FixStep (a + 1) b]\<rparr>"
      and len: "length hist = length (fixHistory ?s1) + (if b then 1 else 0)"
      by blast
    from Some inv a0 have "0 < a" by (auto simp: loopInv_def)
    then show ?thesis using ns len by (simp add: eq)
  qed
  from s2 have ns2: "\<not> success ?s2" by simp
  from s2 consider
    (first) "a = 0" "trace ?s2 = trace s" "fixHistory ?s2 = fixHistory s"
    | (later) b where "0 < a" "trace ?s2 = trace s @ [FixStep (a + 1) b]"
        "length (fixHistory ?s2) = length (fixHistory s) + (if b then 1 else 0)"
    by blast
  then show ?thesis
  proof cases
    case first
    show ?thesis
    proof (cases rule: deployStep_cases [of E "a + 1" ?s2])
      case (ok w)
      with step first inv ns show ?thesis
        by (auto simp: loopInv_def fixAfter_single)
    next
      case (fail err w b)
      with step first inv ns ns2 show ?thesis
        by (auto simp: loopInv_def fixAfter_single)
    qed
  next
    case later
    from inv later(1) ns have ne: "steps (trace s) \<noteq> []"
      and lf: "isFailedDeploy (last (steps (trace s)))"
      and fa: "fixAfterFailedDeploy (steps (trace s))"
      by (auto simp: loopInv_def)
    show ?thesis
    proof (cases rule: deployStep_cases [of E "a + 1" ?s2])
      case (ok w)
      have "fixAfterFailedDeploy (steps (trace s) @ [FixStep (a + 1) b, DeployStep (a + 1) True])"
        by (rule fixAfter_snoc_fix_deploy [OF fa ne lf]) simp
      with ok step later inv a0 ns show ?thesis
        by (auto simp: loopInv_def nat_add_distrib butlast_append)
    next
      case (fail err w b')
      have "fixAfterFailedDeploy (steps (trace s) @ [FixStep (a + 1) b, DeployStep (a + 1) False])"
        by (rule fixAfter_snoc_fix_deploy [OF fa ne lf]) simp
      with fail step later inv ns ns2 a0 show ?thesis
        by (auto simp: loopInv_def nat_add_distrib butlast_append)
    qed
  qed
qed

lemma retryLoop_inv:
  assumes "loopInv a s"
    and "retryLoop E p N a s = (ok, s')"
  shows "\<exists>a'. loopInv a' s' \<and> a' \<le> max a N \<and> (\<not> ok \<longrightarrow> \<not> success s')"
  using assms
proof (induction E p N a s rule: retryLoop.induct)
  case (1 E p N a s)
  show ?case
  proof (cases "a < N \<and> \<not> success s")
    case False
    with "1.prems" show ?thesis
      by (auto simp: retryLoop.simps [of E p N a s])
  next
    case True
    obtain b s3 where ds: "deployStep E (a + 1) (fixStep E p (a + 1) (overwriteStep E s)) = (b, s3)"
      by (cases "deployStep E (a + 1) (fixStep E p (a + 1) (overwriteStep E s))")
    from body_inv [OF "1.prems"(1) _ ds] True
    have inv3: "loopInv (a + 1) s3" and nb: "\<not> b \<longrightarrow> \<not> success s3" by simp_all
    show ?thesis
    proof (cases b)
      case False
      with True ds "1.prems"(2) have "s' = s3" "ok = False"
        by (simp_all add: retryLoop.simps [of E p N a s])
      with inv3 nb False True show ?thesis by (intro exI [of _ "a + 1"]) simp
    next
      case bt: True
      with True ds "1.prems"(2) have "retryLoop E p N (a + 1) s3 = (ok, s')"
        by (simp add: retryLoop.simps [of E p N a s])
      with "1.IH" [OF True refl refl _ _ inv3] ds bt
      obtain a' where "loopInv a' s'" "a' \<le> max (a + 1) N" "\<not> ok \<longrightarrow> \<not> success s'"
        by auto
      with True show ?thesis by (intro exI [of _ a']) auto
    qed
  qed
qed

lemma initial_inv: "loopInv 0 (initialState w)"
  by (simp add: loopInv_def initialState_def)

lemma steps_snoc_other [simp]: "steps (tr @ [HistoryWrite b]) = steps tr"
  by simp

lemma finish_post:
  assumes "loopInv a s" and "a \<le> max 0 N" and "finish E s = (code, s')"
  shows "runPost N code s'"
proof -
  from assms(1) have a0: "0 \<le> a" and nh: "\<forall>b. HistoryWrite b \<notin> set (trace s)"
    and sc: "success s \<longleftrightarrow> \<not> allDeploysFailed (trace s)"
    by (simp_all add: loopInv_def)
  show ?thesis
  proof (cases "length (fixHistory s) > 0")
    case False
    with assms(3) have "s' = (if success s then s\<lparr>world := listExports E (world s)\<rparr> else s)"
      and "code = (if success s then 0 else 1)"
      by (auto simp: finish_def split: if_splits)
    with assms(1,2) a0 nh show ?thesis
      unfolding runPost_def loopInv_def by (auto intro!: exI [of _ a])
  next
    case True
    obtain ok w where wh: "writeHistory E (fixHistory s) (world s) = (ok, w)"
      by (cases "writeHistory E (fixHistory s) (world s)")
    let ?s1 = "s\<lparr>world := w, trace := trace s @ [HistoryWrite ok]\<rparr>"
    from True wh assms(3) have
      "s' = (if ok \<and> success s then ?s1\<lparr>world := listExports E w\<rparr> else ?s1)"
      and "code = (if ok \<and> success s then 0 else 1)"
      by (auto simp: finish_def split: if_splits)
    with assms(1,2) a0 nh show ?thesis
      unfolding runPost_def loopInv_def by (auto intro!: exI [of _ a])
  qed
qed

lemma main_post: "runPost (maxAttemptsOf opt) (fst (main E opt w)) (snd (main E opt w))"
proof -
  let ?N = "maxAttemptsOf opt"
  have init: "runPost ?N 1 (initialState w')" for w' :: 'a
    by (auto simp: runPost_def initialState_def intro!: exI [of _ 0])
  obtain v w1 where v: "validateProject E w = (v, w1)" by (cases "validateProject E w")
  obtain d w2 where d: "readDiagram E w1 = (d, w2)" by (cases "readDiagram E w1")
  obtain c w3 where c: "chdir E w2 = (c, w3)" by (cases "chdir E w2")
  obtain ok s where l: "retryLoop E d ?N 0 (initialState w3) = (ok, s)"
    by (cases "retryLoop E d ?N 0 (initialState w3)")
  from retryLoop_inv [OF initial_inv l] obtain a where
    inv: "loopInv a s" and le: "a \<le> max 0 ?N" and nok: "\<not> ok \<longrightarrow> \<not> success s"
    by blast
  show ?thesis
  proof (cases "v \<and> c")
    case False
    with v d c init show ?thesis by (cases v; cases c) (auto simp: main_def)
  next
    case vc: True
    show ?thesis
    proof (cases ok)
      case True
      with vc v d c l have "main E opt w = finish E s" by (simp add: main_def)
      with finish_post [OF inv le, of E] show ?thesis
        by (cases "finish E s") simp
    next
      case False
      with vc v d c l have m: "main E opt w = (1, s)" by (simp add: main_def)
      from False nok have "\<not> success s" by simp
      with inv le have "runPost ?N 1 s"
        unfolding runPost_def loopInv_def by (auto intro!: exI [of _ a])
      with m show ?thesis by simp
    qed
  qed
qed





section \<open>Claims about the retry loop\<close>

text \<open>
  C1 (amended). For every effective maximum \<open>N \<ge> 1\<close>, a run of \<^verbatim>\<open>main\<close> executes the
  deploy step at most \<open>N\<close> times and the fix step at most \<open>N - 1\<close> times, exactly once
  less than the deploy step; every fix step comes directly after a failed deploy step
  and the last step is a deploy step. The exit code is 0 or 1, and it is 1 if and only
  if every deploy attempt failed or the write of the history file was rejected: a
  rejected write after a successful deployment is caught by the outer \<^verbatim>\<open>catch\<close> of
  \<^verbatim>\<open>main\<close>, which returns 1.
\<close>

theorem retry_loop_bounds:
  assumes "1 \<le> maxAttemptsOf opt"
  shows "deployCount (trace (snd (main E opt w))) \<le> nat (maxAttemptsOf opt)
    \<and> fixCount (trace (snd (main E opt w))) \<le> nat (maxAttemptsOf opt) - 1
    \<and> fixCount (trace (snd (main E opt w))) = deployCount (trace (snd (main E opt w))) - 1
    \<and> fixAfterFailedDeploy (steps (trace (snd (main E opt w))))
    \<and> (fst (main E opt w) = 0 \<or> fst (main E opt w) = 1)
    \<and> (fst (main E opt w) = 1 \<longleftrightarrow>
         allDeploysFailed (trace (snd (main E opt w)))
         \<or> HistoryWrite False \<in> set (trace (snd (main E opt w))))"
proof -
  from main_post [of opt E w] assms show ?thesis
    unfolding runPost_def by (auto simp: max_def)
qed

text \<open>
  The scenario of the specification: the deployment fails twice and succeeds on the
  third attempt, with a maximum of 5.
\<close>

theorem retry_loop_bounds_witness:
  "1 \<le> maxAttemptsOf (Some ''5'')
   \<and> deployCount (trace (snd (main (scriptedEnv (\<lambda>w. 2 \<le> w) (\<lambda>w. True) True) (Some ''5'') 0))) = 3
   \<and> fixCount (trace (snd (main (scriptedEnv (\<lambda>w. 2 \<le> w) (\<lambda>w. True) True) (Some ''5'') 0))) = 2
   \<and> fst (main (scriptedEnv (\<lambda>w. 2 \<le> w) (\<lambda>w. True) True) (Some ''5'') 0) = 0"
proof -
  have h: "1 \<le> maxAttemptsOf (Some ''5'')" by code_simp
  have t: "trace (snd (main (scriptedEnv (\<lambda>w. 2 \<le> w) (\<lambda>w. True) True) (Some ''5'') 0)) =
    [DeployStep 1 False, ErrorLogWrite 1 True, FixStep 2 True, DeployStep 2 False,
     ErrorLogWrite 2 True, FixStep 3 True, DeployStep 3 True, HistoryWrite True]"
    by code_simp
  from retry_loop_bounds [OF h, of "scriptedEnv (\<lambda>w. 2 \<le> w) (\<lambda>w. True) True" 0] h
  show ?thesis by (auto simp: t)
qed

text \<open>
  C1 as stated fails: with a maximum of 2, the first deployment fails, the fix is
  applied, the second deployment succeeds, and the write of \<^verbatim>\<open>fix-history.json\<close> is
  rejected. The exit code is 1 although not every deploy attempt failed.
\<close>

theorem exit_code_counterexample:
  "1 \<le> maxAttemptsOf (Some ''2'')
   \<and> fst (main (scriptedEnv (\<lambda>w. 1 \<le> w) (\<lambda>w. True) False) (Some ''2'') 0) = 1
   \<and> \<not> allDeploysFailed
         (trace (snd (main (scriptedEnv (\<lambda>w. 1 \<le> w) (\<lambda>w. True) False) (Some ''2'') 0)))"
  by code_simp




text \<open>
  C9. When the value of \<^verbatim>\<open>--max-attempts\<close> does not parse to a nonzero integer, the
  effective maximum is the default 5. This includes \<^verbatim>\<open>0\<close> and a non-numeric string;
  with \<^verbatim>\<open>0\<close>, a run whose deployments all fail makes 5 deploy attempts.
\<close>

theorem max_attempts_falls_back_to_default:
  "(parseInt v = None \<or> parseInt v = Some 0 \<longrightarrow> maxAttemptsOf (Some v) = 5)
   \<and> maxAttemptsOf (Some ''0'') = 5
   \<and> maxAttemptsOf (Some ''abc'') = 5
   \<and> deployCount
        (trace (snd (main (scriptedEnv (\<lambda>w. False) (\<lambda>w. True) True) (Some ''0'') 0))) = 5"
proof -
  have "maxAttemptsOf (Some v) = 5" if "parseInt v = None \<or> parseInt v = Some 0"
    using that by (auto simp: maxAttemptsOf_def MAX_FIX_ATTEMPTS_def)
  moreover have "maxAttemptsOf (Some ''0'') = 5" by code_simp
  moreover have "maxAttemptsOf (Some ''abc'') = 5" by code_simp
  moreover have "deployCount
        (trace (snd (main (scriptedEnv (\<lambda>w. False) (\<lambda>w. True) True) (Some ''0'') 0))) = 5"
    by code_simp
  ultimately show ?thesis by blast
qed

theorem max_attempts_falls_back_to_default_witness:
  "parseInt ''0'' = Some 0 \<and> parseInt ''abc'' = None
   \<and> maxAttemptsOf (Some ''0'') = 5 \<and> maxAttemptsOf (Some ''abc'') = 5"
proof -
  have z: "parseInt ''0'' = Some 0" by code_simp
  have n: "parseInt ''abc'' = None" by code_simp
  from max_attempts_falls_back_to_default [of "''0''"] z
  have "maxAttemptsOf (Some ''0'') = 5" by blast
  moreover from max_attempts_falls_back_to_default [of "''abc''"] n
  have "maxAttemptsOf (Some ''abc'') = 5" by blast
  ultimately show ?thesis using z n by simp
qed

section \<open>Claims about the fix registry\<close>

text \<open>
  C10. On two error records that are not null, \<^verbatim>\<open>isSameErrorByHash\<close> returns false,
  whatever the records are: it compares the two objects that \<^verbatim>\<open>generateErrorHash\<close> has
  just allocated by reference. For one and the same record the two references differ
  although the \<^verbatim>\<open>hash\<close> fields of the two objects are equal.
\<close>

theorem isSameErrorByHash_constantly_false:
  "fst (isSameErrorByHash clean (Some e1) (Some e2) h) = False
   \<and> (let (r1, h1) = generateErrorHash clean e h;
          (r2, h2) = generateErrorHash clean e h1
      in r1 \<noteq> r2 \<and> hash (h2 ! r1) = hash (h2 ! r2))"
  by (simp add: isSameErrorByHash_def generateErrorHash_def alloc_def Let_def nth_append)

section \<open>Properties of the path functions\<close>

lemma sublist_sep:
  assumes "c \<notin> set w" and "sublist w (a @ c # b)"
  shows "sublist w a \<or> sublist w b"
proof -
  from assms(2) consider "sublist w a" | "sublist w (c # b)"
    | xs1 xs2 where "w = xs1 @ xs2" "suffix xs1 a" "prefix xs2 (c # b)"
    by (auto simp: sublist_append)
  then show ?thesis
  proof cases
    case 1
    then show ?thesis by simp
  next
    case 2
    then have "prefix w (c # b) \<or> sublist w b" by (simp add: sublist_Cons_right)
    with assms(1) show ?thesis by (cases w) auto
  next
    case 3
    show ?thesis
    proof (cases xs2)
      case Nil
      with 3 show ?thesis by (auto simp: suffix_def)
    next
      case (Cons x xs)
      with 3 assms(1) show ?thesis by auto
    qed
  qed
qed

lemma sublist_joinSlash:
  assumes "CHR ''/'' \<notin> set w" and "w \<noteq> []"
  shows "sublist w (joinSlash segs) \<Longrightarrow> \<exists>seg \<in> set segs. sublist w seg"
proof (induction segs rule: joinSlash.induct)
  case 1
  with assms(2) show ?case by simp
next
  case (2 seg)
  then show ?case by simp
next
  case (3 seg v va)
  from "3.prems" have "sublist w (seg @ CHR ''/'' # joinSlash (v # va))" by simp
  from sublist_sep [OF assms(1) this] "3.IH" show ?case by auto
qed

lemma splitSlash_parts:
  "splitSlash p \<noteq> [] \<and> prefix (hd (splitSlash p)) p \<and> (\<forall>seg \<in> set (splitSlash p). sublist seg p)"
proof (induction p)
  case Nil
  show ?case by simp
next
  case (Cons c cs)
  show ?case
  proof (cases "c = CHR ''/''")
    case True
    with Cons show ?thesis by (auto simp: sublist_Cons_right)
  next
    case False
    from Cons obtain seg segs where sp: "splitSlash cs = seg # segs" by (cases "splitSlash cs") auto
    with Cons have "prefix seg cs" and rest: "\<forall>s \<in> set segs. sublist s cs" by auto
    then have "sublist (c # seg) (c # cs)" by (auto simp: sublist_Cons_right)
    with False sp rest \<open>prefix seg cs\<close> show ?thesis by (auto simp: sublist_Cons_right)
  qed
qed

lemma normalizeSegs_subset:
  "set (normalizeSegs allow res segs) \<subseteq> set res \<union> set segs \<union> {''..''}"
proof (induction allow res segs rule: normalizeSegs.induct)
  case (1 allow res)
  show ?case by auto
next
  case (2 allow res seg segs)
  have tl: "set (tl res) \<subseteq> set res" by (cases res) auto
  consider (skip) "seg = [] \<or> seg = ''.''"
    | (pop) "seg = ''..''" "res \<noteq> [] \<and> hd res \<noteq> ''..''"
    | (up) "seg = ''..''" "\<not> (res \<noteq> [] \<and> hd res \<noteq> ''..'')" "allow"
    | (drop) "seg = ''..''" "\<not> (res \<noteq> [] \<and> hd res \<noteq> ''..'')" "\<not> allow"
    | (keep) "\<not> (seg = [] \<or> seg = ''.'')" "seg \<noteq> ''..''"
    by blast
  then show ?case
  proof cases
    case skip
    with "2.IH"(1) have "set (normalizeSegs allow res segs) \<subseteq> set res \<union> set segs \<union> {''..''}"
      by simp
    with skip show ?thesis by auto
  next
    case pop
    with "2.IH"(2) have "set (normalizeSegs allow (tl res) segs) \<subseteq> set (tl res) \<union> set segs \<union> {''..''}"
      by simp
    with pop tl show ?thesis by auto
  next
    case up
    with "2.IH"(3) have "set (normalizeSegs allow (''..'' # res) segs) \<subseteq> set (''..'' # res) \<union> set segs \<union> {''..''}"
      by simp
    with up show ?thesis by auto
  next
    case drop
    with "2.IH"(4) have "set (normalizeSegs allow res segs) \<subseteq> set res \<union> set segs \<union> {''..''}"
      by simp
    with drop show ?thesis by auto
  next
    case keep
    with "2.IH"(5) have "set (normalizeSegs allow (seg # res) segs) \<subseteq> set (seg # res) \<union> set segs \<union> {''..''}"
      by simp
    with keep show ?thesis by auto
  qed
qed

lemma no_nm_dots: "\<not> sublist ''node_modules'' ''..''"
  by (simp add: sublist_code)

lemma no_nm_relative:
  assumes "\<not> sublist ''node_modules'' m" and "isAbsolute m"
  shows "\<not> sublist ''node_modules'' (path_relative cwd projectDir m)"
proof
  assume a: "sublist ''node_modules'' (path_relative cwd projectDir m)"
  let ?f = "resolveSegs cwd projectDir" and ?t = "resolveSegs cwd m"
  let ?k = "commonPrefixLength ?f ?t"
  from a have ne: "projectDir \<noteq> m" by (auto simp: path_relative_def split: if_splits)
  with a have "sublist ''node_modules'' (joinSlash (replicate (length ?f - ?k) ''..'' @ drop ?k ?t))"
    by (simp add: path_relative_def Let_def)
  then have "\<exists>seg \<in> set (replicate (length ?f - ?k) ''..'' @ drop ?k ?t). sublist ''node_modules'' seg"
    by (intro sublist_joinSlash) simp_all
  then obtain seg where
    seg: "seg \<in> set (replicate (length ?f - ?k) ''..'' @ drop ?k ?t)" "sublist ''node_modules'' seg"
    by blast
  from seg(2) no_nm_dots have "seg \<noteq> ''..''" by auto
  with seg(1) have "seg \<in> set ?t" by (auto dest: in_set_dropD)
  with assms(2) normalizeSegs_subset [of False "[]" "splitSlash m"] \<open>seg \<noteq> ''..''\<close>
  have "seg \<in> set (splitSlash m)" by (auto simp: resolveSegs_def)
  with splitSlash_parts [of m] have "sublist seg m" by simp
  with seg(2) have "sublist ''node_modules'' m" by (rule sublist_order.order_trans)
  with assms(1) show False by simp
qed

lemma no_nm_basename:
  assumes "\<not> sublist ''node_modules'' m"
  shows "\<not> sublist ''node_modules'' (path_basename m)"
proof (cases "filter (\<lambda>seg. seg \<noteq> []) (splitSlash m)")
  case Nil
  then show ?thesis by (simp add: path_basename_def)
next
  case (Cons seg segs)
  then have "path_basename m = last (seg # segs)" by (simp add: path_basename_def)
  moreover have "last (seg # segs) \<in> set (seg # segs)" by (rule last_in_set) simp
  ultimately have "path_basename m \<in> set (filter (\<lambda>seg. seg \<noteq> []) (splitSlash m))"
    using Cons by simp
  then have "path_basename m \<in> set (splitSlash m)" by simp
  with splitSlash_parts [of m] have "sublist (path_basename m) m" by simp
  with assms show ?thesis by (auto dest: sublist_order.order_trans)
qed

lemma no_nm_normalizeFilePath:
  "\<not> sublist ''node_modules'' m \<Longrightarrow> \<not> sublist ''node_modules'' (normalizeFilePath cwd m projectDir)"
  by (simp add: normalizeFilePath_def no_nm_relative no_nm_basename)

lemma no_nm_relativizeInProject:
  "\<not> sublist ''node_modules'' m \<Longrightarrow> \<not> sublist ''node_modules'' (relativizeInProject cwd m projectDir)"
  by (simp add: relativizeInProject_def no_nm_relative)

lemma no_nm_replaceSuffix:
  assumes "\<not> sublist ''node_modules'' s"
  shows "\<not> sublist ''node_modules'' (replaceSuffix old ''.ts'' s)"
proof (cases "suffix old s")
  case False
  with assms show ?thesis by (simp add: replaceSuffix_def)
next
  case True
  let ?t = "take (length s - length old) s"
  have "sublist ?t s" by (rule sublist_take)
  have "\<not> sublist ''node_modules'' (?t @ CHR ''.'' # ''ts'')"
  proof
    assume "sublist ''node_modules'' (?t @ CHR ''.'' # ''ts'')"
    from sublist_sep [OF _ this] have "sublist ''node_modules'' ?t \<or> sublist ''node_modules'' ''ts''"
      by simp
    moreover have "\<not> sublist ''node_modules'' ''ts''" by (simp add: sublist_code)
    ultimately have "sublist ''node_modules'' s"
      using \<open>sublist ?t s\<close> by (auto dest: sublist_order.order_trans)
    with assms show False by simp
  qed
  with True show ?thesis by (simp add: replaceSuffix_def)
qed

lemma no_nm_distToSource:
  assumes "\<not> sublist ''node_modules'' s"
  shows "\<not> sublist ''node_modules'' (distToSource s)"
proof -
  have "sublist (stripPrefix ''dist/'' s) s"
    by (simp add: stripPrefix_def sublist_drop)
  with assms have "\<not> sublist ''node_modules'' (stripPrefix ''dist/'' s)"
    by (auto dest: sublist_order.order_trans)
  then show ?thesis
    unfolding distToSource_def by (intro no_nm_replaceSuffix)
qed

text \<open>
  The test \<^verbatim>\<open>filePath.startsWith(projectDir)\<close> compares texts. A path beside the root
  whose name begins with the name of the root passes it and is made relative with
  \<^verbatim>\<open>..\<close>, and a path inside the root that is written with a doubled slash fails it
  and is cut down to its base name.
\<close>

lemma startsWith_compares_texts:
  "normalizeFilePath ''/home/proj'' ''/home/project2/a.ts'' ''/home/proj'' = ''../project2/a.ts''
   \<and> \<not> insideDir ''/home/proj'' ''/home/proj'' ''/home/project2/a.ts''
   \<and> nameExtends [''home'', ''proj''] [''home'', ''project2'', ''a.ts'']
   \<and> normalizeFilePath ''/home/proj'' ''/home//proj/lib/a.ts'' ''/home/proj'' = ''a.ts''
   \<and> insideDir ''/home/proj'' ''/home/proj'' ''/home//proj/lib/a.ts''"
  by code_simp

section \<open>Properties of the extractor\<close>

lemma extractInv_empty: "extractInv rd pd P emptyExtract"
  by (simp add: extractInv_def emptyExtract_def)

lemma addFile_inv:
  assumes "extractInv rd pd P st" and "P k"
  shows "extractInv rd pd P (addFile rd pd k st)"
proof (cases "k \<in> filesMentioned st")
  case True
  with assms(1) show ?thesis by (simp add: addFile_def)
next
  case False
  from assms(1) False have nk: "k \<notin> path ` set (relevantFiles st)" "k \<notin> fst ` set (reads st)"
    by (auto simp: extractInv_def)
  show ?thesis
  proof (cases "readFile rd (path_join pd k)")
    case None
    with False assms nk show ?thesis
      by (auto simp: addFile_def extractInv_def Let_def)
  next
    case (Some c)
    with False assms nk show ?thesis
      by (auto simp: addFile_def extractInv_def Let_def)
  qed
qed

lemma addSourceFile_inv:
  assumes "extractInv rd pd P st" and "prefix ''dist/'' k \<Longrightarrow> P (distToSource k)"
  shows "extractInv rd pd P (addSourceFile rd pd k st)"
proof (cases "prefix ''dist/'' k \<and> distToSource k \<notin> filesMentioned st")
  case False
  with assms(1) show ?thesis by (auto simp: addSourceFile_def Let_def)
next
  case True
  let ?src = "distToSource k"
  from assms(1) True have nk: "?src \<notin> path ` set (relevantFiles st)" "?src \<notin> fst ` set (reads st)"
    by (auto simp: extractInv_def)
  from True assms(2) have P: "P ?src" by simp
  show ?thesis
  proof (cases "existsSync rd (path_join pd ?src)")
    case False
    with True assms(1) show ?thesis
      by (auto simp: addSourceFile_def extractInv_def Let_def)
  next
    case ex: True
    show ?thesis
    proof (cases "readFile rd (path_join pd ?src)")
      case None
      with True ex assms(1) nk show ?thesis
        by (auto simp: addSourceFile_def extractInv_def Let_def)
    next
      case (Some c)
      with True ex assms(1) nk P show ?thesis
        by (auto simp: addSourceFile_def extractInv_def Let_def)
    qed
  qed
qed

lemma processMatch_inv:
  assumes "extractInv rd pd (\<lambda>p. \<not> sublist ''node_modules'' p \<and> fromMatch cwd pd ms p) st"
    and "m \<in> set ms"
  shows "extractInv rd pd (\<lambda>p. \<not> sublist ''node_modules'' p \<and> fromMatch cwd pd ms p)
           (processMatch rd cwd pd st m)"
proof (cases "skipped m")
  case True
  with assms(1) show ?thesis by (simp add: processMatch_def)
next
  case False
  let ?k = "normalizeFilePath cwd m pd"
  from False have nm: "\<not> sublist ''node_modules'' m" by (simp add: skipped_def)
  then have k1: "\<not> sublist ''node_modules'' ?k" by (rule no_nm_normalizeFilePath)
  then have k2: "\<not> sublist ''node_modules'' (distToSource ?k)" by (rule no_nm_distToSource)
  from False assms(2) have f1: "fromMatch cwd pd ms ?k" by (auto simp: fromMatch_def)
  from False assms(2) have f2: "prefix ''dist/'' ?k \<Longrightarrow> fromMatch cwd pd ms (distToSource ?k)"
    by (auto simp: fromMatch_def)
  have "extractInv rd pd (\<lambda>p. \<not> sublist ''node_modules'' p \<and> fromMatch cwd pd ms p)
          (addSourceFile rd pd ?k st)"
    by (rule addSourceFile_inv [OF assms(1)]) (simp add: k2 f2)
  then have "extractInv rd pd (\<lambda>p. \<not> sublist ''node_modules'' p \<and> fromMatch cwd pd ms p)
          (addFile rd pd ?k (addSourceFile rd pd ?k st))"
    by (rule addFile_inv) (simp add: k1 f1)
  with False show ?thesis by (simp add: processMatch_def Let_def)
qed

lemma processMatch2_inv:
  assumes "extractInv rd pd (\<lambda>p. \<not> sublist ''node_modules'' p \<and> fromMatch2 cwd pd ms p) st"
    and "m \<in> set ms"
  shows "extractInv rd pd (\<lambda>p. \<not> sublist ''node_modules'' p \<and> fromMatch2 cwd pd ms p)
           (processMatch2 rd cwd pd st m)"
proof (cases "skipped m")
  case True
  with assms(1) show ?thesis by (simp add: processMatch2_def)
next
  case False
  let ?k = "relativizeInProject cwd m pd"
  from False have nm: "\<not> sublist ''node_modules'' m" by (simp add: skipped_def)
  then have k1: "\<not> sublist ''node_modules'' ?k" by (rule no_nm_relativizeInProject)
  from False assms(2) have f1: "fromMatch2 cwd pd ms ?k" by (auto simp: fromMatch2_def)
  have "extractInv rd pd (\<lambda>p. \<not> sublist ''node_modules'' p \<and> fromMatch2 cwd pd ms p)
          (addFile rd pd ?k st)"
    by (rule addFile_inv [OF assms(1)]) (simp add: k1 f1)
  with False show ?thesis by (simp add: processMatch2_def)
qed

lemma foldl_inv:
  assumes "\<And>st m. I st \<Longrightarrow> m \<in> set ms \<Longrightarrow> I (step st m)" and "I st0"
  shows "I (foldl step st0 ms)"
  using assms
proof (induction ms arbitrary: st0)
  case Nil
  then show ?case by simp
next
  case (Cons m ms)
  from Cons.prems have "I (step st0 m)" by simp
  with Cons.IH [of "step st0 m"] Cons.prems(1) show ?case by simp
qed

lemma extractRun_inv:
  "extractInv rd pd
     (\<lambda>p. \<not> sublist ''node_modules'' p \<and> fromMatch cwd pd (scanPatterns patterns t) p)
     (extractRun rd cwd t pd)"
  unfolding extractRun_def
  by (rule foldl_inv) (auto intro: processMatch_inv extractInv_empty)

lemma extractRun2_inv:
  "extractInv rd pd
     (\<lambda>p. \<not> sublist ''node_modules'' p \<and> fromMatch2 cwd pd (scanPatterns patterns2 t) p)
     (extractRun2 rd cwd t pd)"
  unfolding extractRun2_def
  by (rule foldl_inv) (auto intro: processMatch2_inv extractInv_empty)

lemma splitSlash_plain: "CHR ''/'' \<notin> set seg \<Longrightarrow> splitSlash seg = [seg]"
  by (induction seg) auto

lemma splitSlash_append:
  "CHR ''/'' \<notin> set seg \<Longrightarrow> splitSlash (seg @ CHR ''/'' # rest) = seg # splitSlash rest"
  by (induction seg) auto

lemma splitSlash_joinSlash:
  assumes "\<forall>seg \<in> set segs. CHR ''/'' \<notin> set seg" and "segs \<noteq> []"
  shows "splitSlash (joinSlash segs) = segs"
  using assms
proof (induction segs rule: joinSlash.induct)
  case 1
  then show ?case by simp
next
  case (2 seg)
  then show ?case by (simp add: splitSlash_plain)
next
  case (3 seg v va)
  then show ?case by (simp add: splitSlash_append)
qed

lemma normalizeSegs_plain:
  "\<forall>seg \<in> set segs. plainName seg \<Longrightarrow> normalizeSegs allow res segs = rev res @ segs"
  by (induction segs arbitrary: res) (auto simp: plainName_def)

lemma resolveSegs_plain:
  assumes "\<forall>seg \<in> set segs. plainName seg"
  shows "resolveSegs cwd (CHR ''/'' # joinSlash segs) = segs"
proof (cases "segs = []")
  case True
  then show ?thesis by (simp add: resolveSegs_def isAbsolute_def)
next
  case False
  from assms have "\<forall>seg \<in> set segs. CHR ''/'' \<notin> set seg" by (simp add: plainName_def)
  from splitSlash_joinSlash [OF this False] assms show ?thesis
    by (simp add: resolveSegs_def isAbsolute_def normalizeSegs_plain)
qed

lemma commonPrefixLength_append: "commonPrefixLength xs (xs @ ys) = length xs"
  by (induction xs) auto

lemma joinSlash_append:
  "ps \<noteq> [] \<Longrightarrow> qs \<noteq> [] \<Longrightarrow> joinSlash (ps @ qs) = joinSlash ps @ CHR ''/'' # joinSlash qs"
  by (induction ps rule: joinSlash.induct) (auto, (cases qs; simp))

lemma relative_plain:
  assumes "\<forall>seg \<in> set (ps @ qs). plainName seg" and "qs \<noteq> []"
  shows "path_relative cwd (CHR ''/'' # joinSlash ps) (CHR ''/'' # joinSlash (ps @ qs)) = joinSlash qs"
proof -
  from assms(1) have f: "resolveSegs cwd (CHR ''/'' # joinSlash ps) = ps"
    by (intro resolveSegs_plain) simp
  from assms(1) have t: "resolveSegs cwd (CHR ''/'' # joinSlash (ps @ qs)) = ps @ qs"
    by (intro resolveSegs_plain) simp
  from f t assms(2) have "CHR ''/'' # joinSlash ps \<noteq> CHR ''/'' # joinSlash (ps @ qs)"
    by (metis append_self_conv)
  then show ?thesis
    by (simp add: path_relative_def f t commonPrefixLength_append Let_def)
qed

lemma prefix_joinSlash:
  "prefix (joinSlash ps) (joinSlash (ps @ qs))"
proof (cases "ps = [] \<or> qs = []")
  case True
  then show ?thesis by auto
next
  case False
  then show ?thesis by (simp add: joinSlash_append)
qed

lemma prefix_before_sep:
  assumes "c \<notin> set p" and "prefix p (y @ c # r)"
  shows "prefix p y"
proof -
  from assms(2) consider "prefix p y" | us where "p = y @ us" "prefix us (c # r)"
    by (auto simp: prefix_append)
  then show ?thesis
  proof cases
    case 1
    then show ?thesis .
  next
    case 2
    with assms(1) show ?thesis by (cases us) auto
  qed
qed

lemma takeWhile_sep: "c \<notin> set y \<Longrightarrow> takeWhile (\<lambda>a. a \<noteq> c) (y @ c # Y) = y"
  by (induction y) auto

lemma prefix_sep_sep:
  assumes "c \<notin> set p" and "c \<notin> set y" and "prefix (p @ c # X) (y @ c # Y)"
  shows "p = y \<and> prefix X Y"
proof -
  from assms(3) obtain z where z: "y @ c # Y = p @ c # X @ z" by (auto simp: prefix_def)
  from assms(2) have "takeWhile (\<lambda>a. a \<noteq> c) (y @ c # Y) = y"
    by (rule takeWhile_sep)
  moreover from assms(1) have "takeWhile (\<lambda>a. a \<noteq> c) (p @ c # X @ z) = p"
    by (rule takeWhile_sep)
  ultimately have "p = y" using z by simp
  with z show ?thesis by simp
qed

lemma prefix_sep_plain:
  assumes "c \<notin> set y" and "prefix (p @ c # X) y"
  shows False
proof -
  from assms(2) have "c \<in> set y" by (auto simp: prefix_def)
  with assms(1) show False by simp
qed

lemma prefix_joinSlash_names:
  assumes "\<forall>seg \<in> set ps \<union> set ts. plainName seg" and "ps \<noteq> []"
    and "prefix (joinSlash ps) (joinSlash ts)"
  shows "nameExtends ps ts"
  using assms
proof (induction ps arbitrary: ts)
  case Nil
  then show ?case by simp
next
  case (Cons p ps')
  from Cons.prems(1) have pp: "CHR ''/'' \<notin> set p" "p \<noteq> []" by (simp_all add: plainName_def)
  show ?case
  proof (cases ts)
    case Nil
    with Cons.prems(3) pp show ?thesis by (cases ps') simp_all
  next
    case ts: (Cons y rest)
    from Cons.prems(1) ts have py: "CHR ''/'' \<notin> set y" by (simp add: plainName_def)
    show ?thesis
    proof (cases ps')
      case Nil
      with Cons.prems(3) ts have "prefix p (joinSlash (y # rest))" by simp
      then have "prefix p y"
        using pp(1) by (cases rest) (auto dest: prefix_before_sep)
      with Nil ts show ?thesis by (simp add: nameExtends_def)
    next
      case ps': (Cons p' ps'')
      with Cons.prems(3) ts have
        pre: "prefix (p @ CHR ''/'' # joinSlash (p' # ps'')) (joinSlash (y # rest))"
        by simp
      show ?thesis
      proof (cases rest)
        case Nil
        with pre py show ?thesis by (auto dest: prefix_sep_plain)
      next
        case (Cons y' rest')
        with pre have "prefix (p @ CHR ''/'' # joinSlash (p' # ps'')) (y @ CHR ''/'' # joinSlash rest)"
          by simp
        from prefix_sep_sep [OF pp(1) py this] have eq: "p = y"
          and r: "prefix (joinSlash (p' # ps'')) (joinSlash rest)"
          by simp_all
        from Cons.prems(1) ts ps' have "\<forall>seg \<in> set ps' \<union> set rest. plainName seg" by simp
        from Cons.IH [OF this _ ] r ps' have "nameExtends ps' rest" by simp
        with eq ts ps' show ?thesis
          by (auto simp: nameExtends_def)
      qed
    qed
  qed
qed

lemma basename_plain:
  assumes "\<forall>seg \<in> set ts. plainName seg" and "ts \<noteq> []"
  shows "path_basename (CHR ''/'' # joinSlash ts) = last ts"
proof -
  from assms(1) have "\<forall>seg \<in> set ts. CHR ''/'' \<notin> set seg" by (simp add: plainName_def)
  from splitSlash_joinSlash [OF this assms(2)]
  have "splitSlash (CHR ''/'' # joinSlash ts) = [] # ts" by simp
  moreover from assms(1) have "filter (\<lambda>seg. seg \<noteq> []) ts = ts"
    by (auto simp: plainName_def filter_id_conv)
  ultimately show ?thesis
    using assms(2) by (cases ts) (simp_all add: path_basename_def)
qed

section \<open>Claims about the extractor\<close>

text \<open>
  C3 (amended). For every error text and project root, the list that the extractor
  returns has no two entries with the same path and no entry whose path contains
  \<^verbatim>\<open>node_modules\<close>; every entry comes from a match that the filter on the raw match
  (\<^verbatim>\<open>node_modules\<close>, \<^verbatim>\<open>internal/\<close>, \<^verbatim>\<open>module.js\<close>) let through, and holds the content
  that the read of its file returned, so a path whose read fails is left out; no path
  is passed to the file read twice, and the full path read is the project root joined
  with it. The extractor has no error result: every read sits in a \<^verbatim>\<open>try\<close>. The same
  holds of the extractor of the second script. The filter is applied before the match
  is normalised, so the path of an entry can itself begin with \<^verbatim>\<open>internal/\<close>; and
  paths are compared as texts, so two texts for one file give two reads and two
  entries.
\<close>

theorem extractor_result:
  "distinct (map path (extractRelevantFiles rd cwd errorText projectDir))
   \<and> (\<forall>f \<in> set (extractRelevantFiles rd cwd errorText projectDir).
         \<not> sublist ''node_modules'' (path f)
         \<and> fromMatch cwd projectDir (scanPatterns patterns errorText) (path f)
         \<and> readFile rd (path_join projectDir (path f)) = Some (fileContent f))
   \<and> distinct (map fst (reads (extractRun rd cwd errorText projectDir)))
   \<and> (\<forall>r \<in> set (reads (extractRun rd cwd errorText projectDir)).
         snd r = path_join projectDir (fst r))
   \<and> distinct (map path (extractRelevantFiles2 rd cwd errorText projectDir))
   \<and> (\<forall>f \<in> set (extractRelevantFiles2 rd cwd errorText projectDir).
         \<not> sublist ''node_modules'' (path f)
         \<and> fromMatch2 cwd projectDir (scanPatterns patterns2 errorText) (path f)
         \<and> readFile rd (path_join projectDir (path f)) = Some (fileContent f))
   \<and> distinct (map fst (reads (extractRun2 rd cwd errorText projectDir)))
   \<and> (\<forall>r \<in> set (reads (extractRun2 rd cwd errorText projectDir)).
         snd r = path_join projectDir (fst r))"
proof -
  from extractRun_inv [of rd projectDir cwd errorText]
  have one: "distinct (map path (extractRelevantFiles rd cwd errorText projectDir))
   \<and> (\<forall>f \<in> set (extractRelevantFiles rd cwd errorText projectDir).
         \<not> sublist ''node_modules'' (path f)
         \<and> fromMatch cwd projectDir (scanPatterns patterns errorText) (path f)
         \<and> readFile rd (path_join projectDir (path f)) = Some (fileContent f))
   \<and> distinct (map fst (reads (extractRun rd cwd errorText projectDir)))
   \<and> (\<forall>r \<in> set (reads (extractRun rd cwd errorText projectDir)).
         snd r = path_join projectDir (fst r))"
    by (simp add: extractInv_def extractRelevantFiles_def)
  from extractRun2_inv [of rd projectDir cwd errorText]
  have two: "distinct (map path (extractRelevantFiles2 rd cwd errorText projectDir))
   \<and> (\<forall>f \<in> set (extractRelevantFiles2 rd cwd errorText projectDir).
         \<not> sublist ''node_modules'' (path f)
         \<and> fromMatch2 cwd projectDir (scanPatterns patterns2 errorText) (path f)
         \<and> readFile rd (path_join projectDir (path f)) = Some (fileContent f))
   \<and> distinct (map fst (reads (extractRun2 rd cwd errorText projectDir)))
   \<and> (\<forall>r \<in> set (reads (extractRun2 rd cwd errorText projectDir)).
         snd r = path_join projectDir (fst r))"
    by (simp add: extractInv_def extractRelevantFiles2_def)
  from one two show ?thesis by simp
qed

text \<open>
  The error text \<^verbatim>\<open>lib/a.ts:3 node_modules/x/y.ts:1 lib/a.ts:9 lib/b.ts:2\<close>, whose
  matches are the four paths, in a project where only \<^verbatim>\<open>lib/a.ts\<close> can be read.
\<close>

theorem extractor_result_witness:
  "scanPatterns patterns ''lib/a.ts:3 node_modules/x/y.ts:1 lib/a.ts:9 lib/b.ts:2''
     = [''lib/a.ts'', ''node_modules/x/y.ts'', ''lib/a.ts'', ''lib/b.ts'']
   \<and> map path (extractRelevantFiles
       \<lparr>existsSync = (\<lambda>p. p = ''/proj/lib/a.ts''),
        readFile = (\<lambda>p. if p = ''/proj/lib/a.ts'' then Some ''A'' else None)\<rparr>
       ''/proj'' ''lib/a.ts:3 node_modules/x/y.ts:1 lib/a.ts:9 lib/b.ts:2'' ''/proj'')
     = [''lib/a.ts'']
   \<and> \<not> sublist ''node_modules'' ''lib/a.ts''
   \<and> map fst (reads (extractRun
       \<lparr>existsSync = (\<lambda>p. p = ''/proj/lib/a.ts''),
        readFile = (\<lambda>p. if p = ''/proj/lib/a.ts'' then Some ''A'' else None)\<rparr>
       ''/proj'' ''lib/a.ts:3 node_modules/x/y.ts:1 lib/a.ts:9 lib/b.ts:2'' ''/proj''))
     = [''lib/a.ts'', ''lib/b.ts'']"
proof -
  let ?rd = "\<lparr>existsSync = (\<lambda>p. p = ''/proj/lib/a.ts''),
        readFile = (\<lambda>p. if p = ''/proj/lib/a.ts'' then Some ''A'' else None)\<rparr>"
  let ?t = "''lib/a.ts:3 node_modules/x/y.ts:1 lib/a.ts:9 lib/b.ts:2''"
  have m: "scanPatterns patterns ?t = [''lib/a.ts'', ''node_modules/x/y.ts'', ''lib/a.ts'', ''lib/b.ts'']"
    by code_simp
  have r: "extractRelevantFiles ?rd ''/proj'' ?t ''/proj''
             = [\<lparr>path = ''lib/a.ts'', fileContent = ''A''\<rparr>]"
    by code_simp
  have q: "map fst (reads (extractRun ?rd ''/proj'' ?t ''/proj'')) = [''lib/a.ts'', ''lib/b.ts'']"
    by code_simp
  from extractor_result [of ?rd "''/proj''" ?t "''/proj''"]
  have "\<forall>f \<in> set (extractRelevantFiles ?rd ''/proj'' ?t ''/proj'').
          \<not> sublist ''node_modules'' (path f)"
    by blast
  then have "\<not> sublist ''node_modules'' ''lib/a.ts''" by (simp add: r)
  with m r q show ?thesis by simp
qed

text \<open>
  C3 as stated fails: the error text \<^verbatim>\<open>Error at /proj/internal/a.ts:12\<close> gives the
  match \<^verbatim>\<open>/proj/internal/a.ts\<close> twice. It does not begin with \<^verbatim>\<open>internal/\<close>, so the
  filter lets it through; relative to the root \<^verbatim>\<open>/proj\<close> it is \<^verbatim>\<open>internal/a.ts\<close>, and
  that is the path of the entry returned. And the error text
  \<^verbatim>\<open>./lib/a.ts:1 lib/a.ts:2\<close> names one file in two ways: the seen-set holds two
  different texts, the file \<^verbatim>\<open>/proj/lib/a.ts\<close> is read twice and returned twice.
\<close>

theorem internal_path_returned_counterexample:
  "scanPatterns patterns ''Error at /proj/internal/a.ts:12''
     = [''/proj/internal/a.ts'', ''/proj/internal/a.ts'']
   \<and> map path (extractRelevantFiles readAll ''/proj'' ''Error at /proj/internal/a.ts:12'' ''/proj'')
     = [''internal/a.ts'']
   \<and> map path (extractRelevantFiles2 readAll ''/proj'' ''Error at /proj/internal/a.ts:12'' ''/proj'')
     = [''internal/a.ts'']
   \<and> prefix ''internal/'' ''internal/a.ts''
   \<and> scanPatterns patterns ''./lib/a.ts:1 lib/a.ts:2'' = [''./lib/a.ts'', ''lib/a.ts'']
   \<and> map path (extractRelevantFiles readAll ''/proj'' ''./lib/a.ts:1 lib/a.ts:2'' ''/proj'')
     = [''./lib/a.ts'', ''lib/a.ts'']
   \<and> map snd (reads (extractRun readAll ''/proj'' ''./lib/a.ts:1 lib/a.ts:2'' ''/proj''))
     = [''/proj/lib/a.ts'', ''/proj/lib/a.ts'']"
  by code_simp

text \<open>
  C4. The claim is that for a path under \<^verbatim>\<open>dist/\<close> the source file is read instead of
  the build output, as the comment above the block says. The block has no
  \<^verbatim>\<open>continue\<close>: for the error text \<^verbatim>\<open>dist/lib/a.js:10\<close>, in a project where both files
  can be read, the match \<^verbatim>\<open>dist/lib/a.js\<close> is mapped to \<^verbatim>\<open>lib/a.ts\<close>, that file is read,
  and then \<^verbatim>\<open>dist/lib/a.js\<close> is read and returned as well.
\<close>

theorem dist_file_read_as_well:
  "scanPatterns patterns ''dist/lib/a.js:10'' = [''dist/lib/a.js'']
   \<and> distToSource ''dist/lib/a.js'' = ''lib/a.ts''
   \<and> distToSource ''dist/lib/a.d.ts'' = ''lib/a.ts''
   \<and> map path (extractRelevantFiles readAll ''/proj'' ''dist/lib/a.js:10'' ''/proj'')
       = [''lib/a.ts'', ''dist/lib/a.js'']
   \<and> reads (extractRun readAll ''/proj'' ''dist/lib/a.js:10'' ''/proj'')
       = [(''lib/a.ts'', ''/proj/lib/a.ts''), (''dist/lib/a.js'', ''/proj/dist/lib/a.js'')]"
  by code_simp

text \<open>
  C8 (amended). The project root and the candidate are written in normal form: a
  slash, then names joined by single slashes, none of them \<^verbatim>\<open>.\<close> or \<^verbatim>\<open>..\<close>. A
  candidate that lies inside the root is rewritten to the path relative to the root,
  in both scripts. A candidate that lies outside the root, and does not go on from the
  directory above the root with a name that begins with the name of the root, is
  replaced by its base name in the debug script and is left unchanged in the second
  script, which has no such replacement. A relative path is left unchanged, however
  it is written.
\<close>

theorem normalizeFilePath_cases:
  "((\<forall>seg \<in> set (ps @ qs). plainName seg) \<longrightarrow>
        insideDir cwd (CHR ''/'' # joinSlash ps) (CHR ''/'' # joinSlash (ps @ qs))
        \<and> normalizeFilePath cwd (CHR ''/'' # joinSlash (ps @ qs)) (CHR ''/'' # joinSlash ps)
            = joinSlash qs
        \<and> relativizeInProject cwd (CHR ''/'' # joinSlash (ps @ qs)) (CHR ''/'' # joinSlash ps)
            = joinSlash qs)
   \<and> ((\<forall>seg \<in> set (ps @ ts). plainName seg) \<and> ts \<noteq> []
        \<and> \<not> prefix ps ts \<and> \<not> nameExtends ps ts \<longrightarrow>
        \<not> insideDir cwd (CHR ''/'' # joinSlash ps) (CHR ''/'' # joinSlash ts)
        \<and> normalizeFilePath cwd (CHR ''/'' # joinSlash ts) (CHR ''/'' # joinSlash ps) = last ts
        \<and> relativizeInProject cwd (CHR ''/'' # joinSlash ts) (CHR ''/'' # joinSlash ps)
            = CHR ''/'' # joinSlash ts)
   \<and> (\<not> isAbsolute filePath \<longrightarrow>
        normalizeFilePath cwd filePath projectDir = filePath
        \<and> relativizeInProject cwd filePath projectDir = filePath)"
proof -
  have inside: "insideDir cwd (CHR ''/'' # joinSlash ps) (CHR ''/'' # joinSlash (ps @ qs))
        \<and> normalizeFilePath cwd (CHR ''/'' # joinSlash (ps @ qs)) (CHR ''/'' # joinSlash ps)
            = joinSlash qs
        \<and> relativizeInProject cwd (CHR ''/'' # joinSlash (ps @ qs)) (CHR ''/'' # joinSlash ps)
            = joinSlash qs"
    if pl: "\<forall>seg \<in> set (ps @ qs). plainName seg"
  proof -
    from pl have f: "resolveSegs cwd (CHR ''/'' # joinSlash ps) = ps"
      by (intro resolveSegs_plain) simp
    from pl have t: "resolveSegs cwd (CHR ''/'' # joinSlash (ps @ qs)) = ps @ qs"
      by (intro resolveSegs_plain) simp
    have pre: "prefix (CHR ''/'' # joinSlash ps) (CHR ''/'' # joinSlash (ps @ qs))"
      by (simp add: prefix_joinSlash)
    have rel: "path_relative cwd (CHR ''/'' # joinSlash ps) (CHR ''/'' # joinSlash (ps @ qs))
        = joinSlash qs"
    proof (cases "qs = []")
      case True
      then show ?thesis by (simp add: path_relative_def)
    next
      case False
      from relative_plain [OF pl False] show ?thesis .
    qed
    from pre rel f t show ?thesis
      by (simp add: insideDir_def normalizeFilePath_def relativizeInProject_def isAbsolute_def)
  qed
  have outside: "\<not> insideDir cwd (CHR ''/'' # joinSlash ps) (CHR ''/'' # joinSlash ts)
        \<and> normalizeFilePath cwd (CHR ''/'' # joinSlash ts) (CHR ''/'' # joinSlash ps) = last ts
        \<and> relativizeInProject cwd (CHR ''/'' # joinSlash ts) (CHR ''/'' # joinSlash ps)
            = CHR ''/'' # joinSlash ts"
    if pl: "\<forall>seg \<in> set (ps @ ts). plainName seg" and ne: "ts \<noteq> []"
      and out: "\<not> prefix ps ts" and nx: "\<not> nameExtends ps ts"
  proof -
    from pl have f: "resolveSegs cwd (CHR ''/'' # joinSlash ps) = ps"
      by (intro resolveSegs_plain) simp
    from pl have t: "resolveSegs cwd (CHR ''/'' # joinSlash ts) = ts"
      by (intro resolveSegs_plain) simp
    from out have "ps \<noteq> []" by auto
    have np: "\<not> prefix (CHR ''/'' # joinSlash ps) (CHR ''/'' # joinSlash ts)"
    proof
      assume "prefix (CHR ''/'' # joinSlash ps) (CHR ''/'' # joinSlash ts)"
      then have "prefix (joinSlash ps) (joinSlash ts)" by simp
      from prefix_joinSlash_names [OF _ \<open>ps \<noteq> []\<close> this] pl have "nameExtends ps ts" by simp
      with nx show False by simp
    qed
    from pl have "\<forall>seg \<in> set ts. plainName seg" by simp
    from basename_plain [OF this ne] np out f t show ?thesis
      by (simp add: insideDir_def normalizeFilePath_def relativizeInProject_def isAbsolute_def)
  qed
  from inside outside show ?thesis
    by (simp add: normalizeFilePath_def relativizeInProject_def)
qed

text \<open>
  The root \<^verbatim>\<open>/home/proj\<close> with the candidates \<^verbatim>\<open>/home/proj/lib/a.ts\<close>, which lies
  inside, \<^verbatim>\<open>/etc/x.ts\<close>, which lies outside, and \<^verbatim>\<open>lib/a.ts\<close>, which is relative.
\<close>

theorem normalizeFilePath_cases_witness:
  "list_all plainName ([''home'', ''proj''] @ [''lib'', ''a.ts''])
   \<and> CHR ''/'' # joinSlash [''home'', ''proj''] = ''/home/proj''
   \<and> CHR ''/'' # joinSlash ([''home'', ''proj''] @ [''lib'', ''a.ts'']) = ''/home/proj/lib/a.ts''
   \<and> insideDir ''/home/proj'' ''/home/proj'' ''/home/proj/lib/a.ts''
   \<and> normalizeFilePath ''/home/proj'' ''/home/proj/lib/a.ts'' ''/home/proj'' = ''lib/a.ts''
   \<and> relativizeInProject ''/home/proj'' ''/home/proj/lib/a.ts'' ''/home/proj'' = ''lib/a.ts''
   \<and> list_all plainName ([''home'', ''proj''] @ [''etc'', ''x.ts''])
   \<and> \<not> prefix [''home'', ''proj''] [''etc'', ''x.ts'']
   \<and> \<not> nameExtends [''home'', ''proj''] [''etc'', ''x.ts'']
   \<and> \<not> insideDir ''/home/proj'' ''/home/proj'' ''/etc/x.ts''
   \<and> normalizeFilePath ''/home/proj'' ''/etc/x.ts'' ''/home/proj'' = ''x.ts''
   \<and> relativizeInProject ''/home/proj'' ''/etc/x.ts'' ''/home/proj'' = ''/etc/x.ts''
   \<and> \<not> isAbsolute ''lib/a.ts''
   \<and> normalizeFilePath ''/home/proj'' ''lib/a.ts'' ''/home/proj'' = ''lib/a.ts''"
proof -
  have la: "list_all plainName ([''home'', ''proj''] @ [''lib'', ''a.ts''])"
    and lb: "list_all plainName ([''home'', ''proj''] @ [''etc'', ''x.ts''])"
    by (simp_all add: plainName_def)
  have a: "\<forall>seg \<in> set ([''home'', ''proj''] @ [''lib'', ''a.ts'']). plainName seg"
    by (simp add: plainName_def)
  have b: "(\<forall>seg \<in> set ([''home'', ''proj''] @ [''etc'', ''x.ts'']). plainName seg)
      \<and> [''etc'', ''x.ts''] \<noteq> []
      \<and> \<not> prefix [''home'', ''proj''] [''etc'', ''x.ts'']
      \<and> \<not> nameExtends [''home'', ''proj''] [''etc'', ''x.ts'']"
    by (simp add: plainName_def nameExtends_def)
  have c: "\<not> isAbsolute ''lib/a.ts''" by code_simp
  from normalizeFilePath_cases
         [where ps = "[''home'', ''proj'']" and qs = "[''lib'', ''a.ts'']" and cwd = "''/home/proj''"] a
  have 1: "insideDir ''/home/proj'' ''/home/proj'' ''/home/proj/lib/a.ts''
     \<and> normalizeFilePath ''/home/proj'' ''/home/proj/lib/a.ts'' ''/home/proj'' = ''lib/a.ts''
     \<and> relativizeInProject ''/home/proj'' ''/home/proj/lib/a.ts'' ''/home/proj'' = ''lib/a.ts''"
    by simp
  from normalizeFilePath_cases
         [where ps = "[''home'', ''proj'']" and ts = "[''etc'', ''x.ts'']" and cwd = "''/home/proj''"] b
  have 2: "\<not> insideDir ''/home/proj'' ''/home/proj'' ''/etc/x.ts''
     \<and> normalizeFilePath ''/home/proj'' ''/etc/x.ts'' ''/home/proj'' = ''x.ts''
     \<and> relativizeInProject ''/home/proj'' ''/etc/x.ts'' ''/home/proj'' = ''/etc/x.ts''"
    by simp
  from normalizeFilePath_cases
         [where filePath = "''lib/a.ts''" and projectDir = "''/home/proj''" and cwd = "''/home/proj''"] c
  have 3: "normalizeFilePath ''/home/proj'' ''lib/a.ts'' ''/home/proj'' = ''lib/a.ts''"
    by simp
  from la lb b c 1 2 3 show ?thesis by simp
qed

text \<open>
  C8 as stated fails in the second script: \<^verbatim>\<open>/etc/x.ts\<close> is absolute and outside the
  root \<^verbatim>\<open>/home/proj\<close>, and it is left as it is, not replaced by \<^verbatim>\<open>x.ts\<close>.
\<close>

theorem absolute_outside_unchanged_counterexample:
  "isAbsolute ''/etc/x.ts''
   \<and> \<not> insideDir ''/home/proj'' ''/home/proj'' ''/etc/x.ts''
   \<and> relativizeInProject ''/home/proj'' ''/etc/x.ts'' ''/home/proj'' = ''/etc/x.ts''
   \<and> path_basename ''/etc/x.ts'' = ''x.ts''"
  by code_simp

section \<open>Properties of the applicator\<close>

lemma mkdirs_None:
  assumes "mkdirs P ds fs = (None, fs1)"
  shows "(\<forall>d \<in> set ds. fs1 d = Some Dir)
    \<and> (\<forall>q. fs q = Some Dir \<longrightarrow> fs1 q = Some Dir)
    \<and> (\<forall>q c. fs q = Some (File c) \<longrightarrow> fs1 q = Some (File c))
    \<and> (\<forall>q. fs1 q = Some Dir \<or> fs1 q = fs q)"
  using assms
proof (induction ds arbitrary: fs)
  case Nil
  then show ?case by simp
next
  case (Cons d ds)
  show ?case
  proof (cases "fs d")
    case None
    with Cons.prems have mk: "mkdirs P ds (fs(d \<mapsto> Dir)) = (None, fs1)"
      by (auto split: if_splits option.splits)
    note ih = Cons.IH [OF mk]
    from ih have here: "fs1 d = Some Dir" by simp
    have dirs: "fs1 q = Some Dir" if "fs q = Some Dir" for q
      using that None ih by (cases "q = d") simp_all
    have files: "fs1 q = Some (File c)" if "fs q = Some (File c)" for q c
      using that None ih by (cases "q = d") simp_all
    have same: "fs1 q = Some Dir \<or> fs1 q = fs q" for q
    proof (cases "q = d")
      case True
      with here show ?thesis by simp
    next
      case False
      from ih have "fs1 q = Some Dir \<or> fs1 q = (fs(d \<mapsto> Dir)) q" by blast
      with False show ?thesis by simp
    qed
    from ih here dirs files same show ?thesis by auto
  next
    case (Some n)
    show ?thesis
    proof (cases n)
      case (File c)
      with Some Cons.prems show ?thesis by simp
    next
      case Dir
      with Some Cons.prems have mk: "mkdirs P ds fs = (None, fs1)" by simp
      note ih = Cons.IH [OF mk]
      from ih Some Dir have "fs1 d = Some Dir" by simp
      with ih show ?thesis by auto
    qed
  qed
qed

lemma mkdirRecursive_None:
  assumes "mkdirRecursive P segs fs = (None, fs1)"
  shows "(\<forall>pre \<in> set (prefixes segs). fs1 pre = Some Dir)
    \<and> (\<forall>q. fs q = Some Dir \<longrightarrow> fs1 q = Some Dir)
    \<and> (\<forall>q c. fs q = Some (File c) \<longrightarrow> fs1 q = Some (File c))
    \<and> (\<forall>q. fs1 q = Some Dir \<or> fs1 q = fs q)"
  using assms mkdirs_None [of P "prefixes segs" fs fs1] by (simp add: mkdirRecursive_def)

lemma writeFile_None:
  assumes "writeFile P cwd p data fs = (None, fs2)"
  shows "fs2 = fs(resolveSegs cwd p \<mapsto> File data) \<and> fs (resolveSegs cwd p) \<noteq> Some Dir"
  using assms
  by (auto simp: writeFile_def Let_def split: if_splits option.splits prod.splits)

lemma writeFile_other:
  assumes "writeFile P cwd p data fs = (r, fs2)" and "q \<noteq> resolveSegs cwd p"
  shows "fs2 q = fs q"
  using assms
  by (auto simp: writeFile_def Let_def split: if_splits option.splits prod.splits)

lemma fileJson_fields [simp]:
  "stringField ''filename'' (fileJson f) = Some (filename f)"
  "contentField (fileJson f) = Some (contentJson (content f))"
  by (simp_all add: fileJson_def stringField_def contentField_def field_def)

lemma writeFileData_Inr:
  assumes "writeFileData P cwd p (Some (contentJson c)) fs = (Inr written, fs2)"
  shows "written = c \<and> writeFile P cwd p (dataOf (bufferFrom P) c) fs = (None, fs2)"
proof (cases c)
  case (Text t)
  with assms show ?thesis
    by (cases "writeFile P cwd p t fs")
       (auto simp: writeFileData_def split: option.splits)
next
  case (Chunks cs)
  obtain written' ok where wc: "writeChunks (bufferFrom P) cs = (written', ok)"
    by (cases "writeChunks (bufferFrom P) cs")
  with Chunks assms show ?thesis
    by (cases "writeFile P cwd p written' fs")
       (auto simp: writeFileData_def split: option.splits if_splits)
qed

lemma applyFixes_Cons:
  "applyFixes P cwd pd (x # rest) fs =
     (case applyFixes P cwd pd [x] fs of
        (Inl e, fs1) \<Rightarrow> (Inl e, fs1)
      | (Inr one, fs1) \<Rightarrow>
          (case applyFixes P cwd pd rest fs1 of
             (Inl e, fs2) \<Rightarrow> (Inl e, fs2)
           | (Inr others, fs2) \<Rightarrow> (Inr (one @ others), fs2)))"
  by (auto simp: Let_def split: option.splits prod.splits sum.splits)

lemma applyFixes_Cons_Inr:
  assumes "applyFixes P cwd pd (fileJson f # rest) fs = (Inr written, fs')"
  obtains fs1 fs2 written' where
    "mkdirRecursive P (targetDir cwd pd f) fs = (None, fs1)"
    "writeFile P cwd (path_join pd (filename f)) (dataOf (bufferFrom P) (content f)) fs1 = (None, fs2)"
    "applyFixes P cwd pd rest fs2 = (Inr written', fs')"
    "written = f # written'"
proof -
  obtain e1 fs1 where mk: "mkdirRecursive P (targetDir cwd pd f) fs = (e1, fs1)"
    by (cases "mkdirRecursive P (targetDir cwd pd f) fs")
  from assms mk have e1: "e1 = None"
    by (cases e1) (auto simp: targetDir_def Let_def)
  obtain r2 fs2 where
    wr: "writeFileData P cwd (path_join pd (filename f)) (Some (contentJson (content f))) fs1 = (r2, fs2)"
    by (cases "writeFileData P cwd (path_join pd (filename f)) (Some (contentJson (content f))) fs1")
  from assms mk e1 wr obtain c where r2: "r2 = Inr c"
    by (cases r2) (auto simp: targetDir_def Let_def)
  obtain r3 fs3 where re: "applyFixes P cwd pd rest fs2 = (r3, fs3)"
    by (cases "applyFixes P cwd pd rest fs2")
  from assms mk e1 wr r2 re obtain written' where
    r3: "r3 = Inr written'" "fs3 = fs'" "written = \<lparr>filename = filename f, content = c\<rparr> # written'"
    by (cases r3) (auto simp: targetDir_def Let_def)
  from writeFileData_Inr [OF wr [unfolded r2]] have c: "c = content f"
    and w: "writeFile P cwd (path_join pd (filename f)) (dataOf (bufferFrom P) (content f)) fs1
              = (None, fs2)"
    by simp_all
  from c r3(3) have "written = f # written'" by simp
  with mk e1 w re r3 that show thesis by simp
qed

lemma applyFixes_preserves:
  assumes "applyFixes P cwd pd (map fileJson files) fs = (Inr written, fs')"
  shows "written = files
    \<and> (\<forall>q. fs q = Some Dir \<longrightarrow> fs' q = Some Dir)
    \<and> (\<forall>q c. fs q = Some (File c) \<and> q \<notin> target cwd pd ` set files \<longrightarrow> fs' q = Some (File c))"
  using assms
proof (induction files arbitrary: fs written)
  case Nil
  then show ?case by simp
next
  case (Cons f files)
  from Cons.prems have "applyFixes P cwd pd (fileJson f # map fileJson files) fs = (Inr written, fs')"
    by simp
  then obtain fs1 fs2 written' where
    mk: "mkdirRecursive P (targetDir cwd pd f) fs = (None, fs1)"
    and wr: "writeFile P cwd (path_join pd (filename f)) (dataOf (bufferFrom P) (content f)) fs1
               = (None, fs2)"
    and rest: "applyFixes P cwd pd (map fileJson files) fs2 = (Inr written', fs')"
    and w: "written = f # written'"
    by (rule applyFixes_Cons_Inr)
  note m = mkdirRecursive_None [OF mk]
  from writeFile_None [OF wr] have
    fs2: "fs2 = fs1(target cwd pd f \<mapsto> File (dataOf (bufferFrom P) (content f)))"
    and nd: "fs1 (target cwd pd f) \<noteq> Some Dir"
    by (simp_all add: target_def)
  note ih = Cons.IH [OF rest]
  have dir: "fs' q = Some Dir" if "fs q = Some Dir" for q
  proof -
    from that m have "fs1 q = Some Dir" by simp
    with nd have "q \<noteq> target cwd pd f" by auto
    with \<open>fs1 q = Some Dir\<close> fs2 have "fs2 q = Some Dir" by simp
    with ih show ?thesis by simp
  qed
  have keep: "fs' q = Some (File c)"
    if "fs q = Some (File c)" "q \<notin> target cwd pd ` set (f # files)" for q c
  proof -
    from that(1) m have "fs1 q = Some (File c)" by simp
    with that(2) fs2 have "fs2 q = Some (File c)" by simp
    with ih that(2) show ?thesis by simp
  qed
  from ih w dir keep show ?case by simp
qed

lemma applyFixes_written:
  assumes "applyFixes P cwd pd (map fileJson files) fs = (Inr written, fs')"
    and "i < length files"
    and "\<forall>j. i < j \<and> j < length files \<longrightarrow> target cwd pd (files ! j) \<noteq> target cwd pd (files ! i)"
  shows "fs' (target cwd pd (files ! i)) = Some (File (dataOf (bufferFrom P) (content (files ! i))))
    \<and> (\<forall>pre \<in> set (prefixes (targetDir cwd pd (files ! i))). fs' pre = Some Dir)"
  using assms
proof (induction files arbitrary: fs written i)
  case Nil
  then show ?case by simp
next
  case (Cons f files)
  from Cons.prems(1) have "applyFixes P cwd pd (fileJson f # map fileJson files) fs = (Inr written, fs')"
    by simp
  then obtain fs1 fs2 written' where
    mk: "mkdirRecursive P (targetDir cwd pd f) fs = (None, fs1)"
    and wr: "writeFile P cwd (path_join pd (filename f)) (dataOf (bufferFrom P) (content f)) fs1
               = (None, fs2)"
    and rest: "applyFixes P cwd pd (map fileJson files) fs2 = (Inr written', fs')"
    and w: "written = f # written'"
    by (rule applyFixes_Cons_Inr)
  note m = mkdirRecursive_None [OF mk]
  from writeFile_None [OF wr] have
    fs2: "fs2 = fs1(target cwd pd f \<mapsto> File (dataOf (bufferFrom P) (content f)))"
    and nd: "fs1 (target cwd pd f) \<noteq> Some Dir"
    by (simp_all add: target_def)
  note pres = applyFixes_preserves [OF rest]
  show ?case
  proof (cases i)
    case 0
    from Cons.prems(3) 0 have later: "target cwd pd f \<notin> target cwd pd ` set files"
      by (fastforce simp: in_set_conv_nth)
    from fs2 have "fs2 (target cwd pd f) = Some (File (dataOf (bufferFrom P) (content f)))" by simp
    with pres later have a: "fs' (target cwd pd f) = Some (File (dataOf (bufferFrom P) (content f)))"
      by blast
    have "fs' pre = Some Dir" if "pre \<in> set (prefixes (targetDir cwd pd f))" for pre
    proof -
      from that m have "fs1 pre = Some Dir" by simp
      with nd have "pre \<noteq> target cwd pd f" by auto
      with \<open>fs1 pre = Some Dir\<close> fs2 have "fs2 pre = Some Dir" by simp
      with pres show ?thesis by simp
    qed
    with a 0 show ?thesis by simp
  next
    case (Suc k)
    with Cons.prems(2) have k: "k < length files" by simp
    from Cons.prems(3) Suc have
      "\<forall>j. k < j \<and> j < length files \<longrightarrow> target cwd pd (files ! j) \<noteq> target cwd pd (files ! k)"
      by (metis Suc_less_eq length_Cons nth_Cons_Suc)
    from Cons.IH [OF rest k this] Suc show ?thesis by simp
  qed
qed

lemma applyFixes_first_error:
  assumes "applyFixes P cwd pd (map fileJson files) fs = (Inl e, fs')"
  shows "\<exists>k fsk. k < length files
    \<and> applyFixes P cwd pd (map fileJson (take k files)) fs = (Inr (take k files), fsk)
    \<and> applyFixes P cwd pd [fileJson (files ! k)] fsk = (Inl e, fs')"
  using assms
proof (induction files arbitrary: fs)
  case Nil
  then show ?case by simp
next
  case (Cons f files)
  obtain r1 fs1 where one: "applyFixes P cwd pd [fileJson f] fs = (r1, fs1)"
    by (cases "applyFixes P cwd pd [fileJson f] fs")
  from Cons.prems have "applyFixes P cwd pd (fileJson f # map fileJson files) fs = (Inl e, fs')"
    by (simp only: list.map)
  then have whole:
    "(case (r1, fs1) of
        (Inl e, fs1) \<Rightarrow> (Inl e, fs1)
      | (Inr one, fs1) \<Rightarrow>
          (case applyFixes P cwd pd (map fileJson files) fs1 of
             (Inl e, fs2) \<Rightarrow> (Inl e, fs2)
           | (Inr others, fs2) \<Rightarrow> (Inr (one @ others), fs2))) = (Inl e, fs')"
    by (simp only: applyFixes_Cons [of P cwd pd "fileJson f" "map fileJson files" fs] one)
  show ?case
  proof (cases r1)
    case (Inl e1)
    with whole have "e1 = e" "fs1 = fs'" by simp_all
    with one Inl have "applyFixes P cwd pd [fileJson ((f # files) ! 0)] fs = (Inl e, fs')"
      by (simp del: applyFixes.simps)
    moreover have "applyFixes P cwd pd (map fileJson (take 0 (f # files))) fs
        = (Inr (take 0 (f # files)), fs)"
      by simp
    ultimately show ?thesis
      by (intro exI [of _ 0] exI [of _ fs]) (simp del: applyFixes.simps)
  next
    case (Inr w1)
    with one have "applyFixes P cwd pd (map fileJson [f]) fs = (Inr w1, fs1)"
      by (simp del: applyFixes.simps)
    from applyFixes_preserves [OF this] have w1: "w1 = [f]" by simp
    from whole Inr have rest: "applyFixes P cwd pd (map fileJson files) fs1 = (Inl e, fs')"
      by (auto split: sum.splits prod.splits)
    from Cons.IH [OF rest] obtain k fsk where k: "k < length files"
      and pre: "applyFixes P cwd pd (map fileJson (take k files)) fs1 = (Inr (take k files), fsk)"
      and err: "applyFixes P cwd pd [fileJson (files ! k)] fsk = (Inl e, fs')"
      by blast
    have "applyFixes P cwd pd (fileJson f # map fileJson (take k files)) fs
         = (Inr (f # take k files), fsk)"
      by (simp only: applyFixes_Cons [of P cwd pd "fileJson f" "map fileJson (take k files)" fs]
            one Inr w1)
         (simp add: pre)
    then have "applyFixes P cwd pd (map fileJson (take (Suc k) (f # files))) fs
         = (Inr (take (Suc k) (f # files)), fsk)"
      by (simp del: applyFixes.simps)
    moreover from err have "applyFixes P cwd pd [fileJson ((f # files) ! Suc k)] fsk = (Inl e, fs')"
      by (simp del: applyFixes.simps)
    ultimately show ?thesis
      using k by (intro exI [of _ "Suc k"] exI [of _ fsk]) (simp del: applyFixes.simps)
  qed
qed

section \<open>Claims about the applicator\<close>

text \<open>
  C5 (amended). For every list of files, each with a name and a content, and every
  project root: when the applicator goes through the whole list without an error,
  every listed file that no later entry of the list writes again is a file at the
  project root joined with its name, with exactly the given content string (for a
  content that is an array, with the text of its chunks), and the directory of that
  path and all directories above it exist; an entry is overwritten by a later entry
  for the same path. When a \<^verbatim>\<open>mkdir\<close> or a write is rejected, the loop ends there
  with that error: the entries before the rejected one have been applied as a list of
  their own, and the entries after it are not looked at. In particular, for the one file \<^verbatim>\<open>lib/a.ts\<close> with content \<^verbatim>\<open>X\<close> and the root \<^verbatim>\<open>/proj\<close>,
  an empty directory, the applicator succeeds, \<^verbatim>\<open>/proj/lib\<close> is made and
  \<^verbatim>\<open>/proj/lib/a.ts\<close> contains \<^verbatim>\<open>X\<close>.
\<close>

theorem applicator_writes_files:
  assumes "applyFixes P cwd pd (map fileJson files) fs = (res, fs')"
  shows "(\<forall>written. res = Inr written \<longrightarrow>
            written = files
            \<and> (\<forall>i < length files.
                 (\<forall>j. i < j \<and> j < length files \<longrightarrow>
                    target cwd pd (files ! j) \<noteq> target cwd pd (files ! i)) \<longrightarrow>
                 (\<forall>c. content (files ! i) = Text c \<longrightarrow>
                    fs' (target cwd pd (files ! i)) = Some (File c))
                 \<and> fs' (target cwd pd (files ! i))
                     = Some (File (dataOf (bufferFrom P) (content (files ! i))))
                 \<and> (\<forall>pre \<in> set (prefixes (targetDir cwd pd (files ! i))). fs' pre = Some Dir)))
     \<and> (\<forall>e. res = Inl e \<longrightarrow>
            (\<exists>k fsk. k < length files
               \<and> applyFixes P cwd pd (map fileJson (take k files)) fs = (Inr (take k files), fsk)
               \<and> applyFixes P cwd pd [fileJson (files ! k)] fsk = (Inl e, fs')))"
proof (cases res)
  case (Inl e)
  with assms applyFixes_first_error [of P cwd pd files fs e fs'] show ?thesis by simp
next
  case (Inr written)
  with assms have run: "applyFixes P cwd pd (map fileJson files) fs = (Inr written, fs')" by simp
  from applyFixes_preserves [OF run] have w: "written = files" by simp
  have "(\<forall>c. content (files ! i) = Text c \<longrightarrow> fs' (target cwd pd (files ! i)) = Some (File c))
      \<and> fs' (target cwd pd (files ! i)) = Some (File (dataOf (bufferFrom P) (content (files ! i))))
      \<and> (\<forall>pre \<in> set (prefixes (targetDir cwd pd (files ! i))). fs' pre = Some Dir)"
    if "i < length files"
      "\<forall>j. i < j \<and> j < length files \<longrightarrow> target cwd pd (files ! j) \<noteq> target cwd pd (files ! i)"
    for i
    using applyFixes_written [OF run that] by auto
  with Inr w show ?thesis by simp
qed

theorem applicator_writes_files_witness:
  "fst (applyFixes plainPlatform ''/proj'' ''/proj''
          (map fileJson [\<lparr>filename = ''lib/a.ts'', content = Text ''X''\<rparr>]) projOnly)
     = Inr [\<lparr>filename = ''lib/a.ts'', content = Text ''X''\<rparr>]
   \<and> projOnly [''proj'', ''lib''] = None
   \<and> snd (applyFixes plainPlatform ''/proj'' ''/proj''
          (map fileJson [\<lparr>filename = ''lib/a.ts'', content = Text ''X''\<rparr>]) projOnly)
        [''proj'', ''lib'', ''a.ts''] = Some (File ''X'')
   \<and> snd (applyFixes plainPlatform ''/proj'' ''/proj''
          (map fileJson [\<lparr>filename = ''lib/a.ts'', content = Text ''X''\<rparr>]) projOnly)
        [''proj'', ''lib''] = Some Dir"
proof -
  define files where "files = [\<lparr>filename = ''lib/a.ts'', content = Text ''X''\<rparr>]"
  define fs' where
    "fs' = snd (applyFixes plainPlatform ''/proj'' ''/proj'' (map fileJson files) projOnly)"
  have ok: "fst (applyFixes plainPlatform ''/proj'' ''/proj'' (map fileJson files) projOnly)
      = Inr files"
    unfolding files_def by code_simp
  then have run: "applyFixes plainPlatform ''/proj'' ''/proj'' (map fileJson files) projOnly
      = (Inr files, fs')"
    unfolding fs'_def by (metis prod.collapse)
  have len: "0 < length files" by (simp add: files_def)
  have later: "\<forall>j. 0 < j \<and> j < length files \<longrightarrow>
      target ''/proj'' ''/proj'' (files ! j) \<noteq> target ''/proj'' ''/proj'' (files ! 0)"
    by (auto simp: files_def)
  have t: "target ''/proj'' ''/proj'' (files ! 0) = [''proj'', ''lib'', ''a.ts'']"
    unfolding files_def by code_simp
  have d: "[''proj'', ''lib''] \<in> set (prefixes (targetDir ''/proj'' ''/proj'' (files ! 0)))"
    unfolding files_def by code_simp
  have c: "content (files ! 0) = Text ''X''" by (simp add: files_def)
  have n: "projOnly [''proj'', ''lib''] = None" by code_simp
  from applicator_writes_files [OF run] len later c
  have "fs' (target ''/proj'' ''/proj'' (files ! 0)) = Some (File ''X'')"
    and "\<forall>pre \<in> set (prefixes (targetDir ''/proj'' ''/proj'' (files ! 0))). fs' pre = Some Dir"
    by blast+
  with t d have "fs' [''proj'', ''lib'', ''a.ts''] = Some (File ''X'')"
    and "fs' [''proj'', ''lib''] = Some Dir"
    by (simp, blast)
  with ok n show ?thesis unfolding fs'_def files_def by blast
qed

text \<open>
  C5 as stated fails for a list that names a file twice: both entries are written
  without an error, and \<^verbatim>\<open>/proj/a.ts\<close> holds \<^verbatim>\<open>Y\<close>, not the content \<^verbatim>\<open>X\<close> of the first
  entry. It also fails for a list that names \<^verbatim>\<open>a\<close> and then \<^verbatim>\<open>a/b.ts\<close>: the file \<^verbatim>\<open>a\<close>
  is in the way of the directory, the loop ends with an error and \<^verbatim>\<open>a/b.ts\<close> is not
  written.
\<close>

theorem later_entry_overwrites_counterexample:
  "fst (applyFixes plainPlatform ''/proj'' ''/proj''
          (map fileJson [\<lparr>filename = ''a.ts'', content = Text ''X''\<rparr>,
                         \<lparr>filename = ''a.ts'', content = Text ''Y''\<rparr>]) projOnly)
     = Inr [\<lparr>filename = ''a.ts'', content = Text ''X''\<rparr>,
            \<lparr>filename = ''a.ts'', content = Text ''Y''\<rparr>]
   \<and> target ''/proj'' ''/proj'' \<lparr>filename = ''a.ts'', content = Text ''X''\<rparr> = [''proj'', ''a.ts'']
   \<and> snd (applyFixes plainPlatform ''/proj'' ''/proj''
          (map fileJson [\<lparr>filename = ''a.ts'', content = Text ''X''\<rparr>,
                         \<lparr>filename = ''a.ts'', content = Text ''Y''\<rparr>]) projOnly)
        [''proj'', ''a.ts''] = Some (File ''Y'')
   \<and> fst (applyFixes plainPlatform ''/proj'' ''/proj''
          (map fileJson [\<lparr>filename = ''a'', content = Text ''X''\<rparr>,
                         \<lparr>filename = ''a/b.ts'', content = Text ''Y''\<rparr>]) projOnly)
     = Inl ''EEXIST''
   \<and> snd (applyFixes plainPlatform ''/proj'' ''/proj''
          (map fileJson [\<lparr>filename = ''a'', content = Text ''X''\<rparr>,
                         \<lparr>filename = ''a/b.ts'', content = Text ''Y''\<rparr>]) projOnly)
        [''proj'', ''a'', ''b.ts''] = None"
  by code_simp

section \<open>Properties of the fix requestor\<close>

lemma splitSlash_app:
  "splitSlash (A @ CHR ''/'' # B) = splitSlash A @ splitSlash B"
proof (induction A)
  case Nil
  show ?case by simp
next
  case (Cons c A)
  from splitSlash_parts [of A] obtain seg segs where sp: "splitSlash A = seg # segs"
    by (cases "splitSlash A") auto
  with Cons show ?case by simp
qed

lemma splitSlash_no_slash: "seg \<in> set (splitSlash p) \<Longrightarrow> CHR ''/'' \<notin> set seg"
proof (induction p arbitrary: seg)
  case Nil
  then show ?case by simp
next
  case (Cons c p)
  from splitSlash_parts [of p] obtain s1 segs where sp: "splitSlash p = s1 # segs"
    by (cases "splitSlash p") auto
  with Cons show ?case by (auto split: if_splits)
qed

lemma normalizeSegs_snoc:
  "plainName n \<Longrightarrow> normalizeSegs a res (segs @ [n]) = normalizeSegs a res segs @ [n]"
  by (induction a res segs rule: normalizeSegs.induct) (auto simp: plainName_def)

lemma normalizeSegs_nonempty:
  "[] \<notin> set res \<Longrightarrow> [] \<notin> set (normalizeSegs a res segs)"
proof (induction a res segs rule: normalizeSegs.induct)
  case (1 a res)
  then show ?case by simp
next
  case (2 a res seg segs)
  have tl: "[] \<notin> set (tl res)" using "2.prems" by (cases res) auto
  from 2 tl show ?case by (auto split: if_splits)
qed

lemma joinSlash_snoc_nonempty: "n \<noteq> [] \<Longrightarrow> joinSlash (N @ [n]) \<noteq> []"
  by (induction N rule: joinSlash.induct) auto

lemma joinSlash_hd:
  "segs \<noteq> [] \<Longrightarrow> [] \<notin> set segs \<Longrightarrow> joinSlash segs \<noteq> [] \<and> hd (joinSlash segs) = hd (hd segs)"
  by (induction segs rule: joinSlash.induct) auto

lemma hd_not_sep: "x \<noteq> [] \<Longrightarrow> c \<notin> set x \<Longrightarrow> hd x \<noteq> c"
  by (cases x) auto

lemma resolveSegs_join_last:
  assumes "plainName n"
  shows "\<exists>pre. resolveSegs cwd (path_join D n) = pre @ [n]"
proof -
  from assms have n0: "n \<noteq> []" "CHR ''/'' \<notin> set n"
    by (auto simp: plainName_def)
  then have n: "n \<noteq> []" "CHR ''/'' \<notin> set n" "hd n \<noteq> CHR ''/''" "last n \<noteq> CHR ''/''"
    by (simp, simp, metis hd_in_set, metis last_in_set)
  define p where "p = (if D = [] then n else D @ CHR ''/'' # n)"
  from n have pj: "path_join D n = path_normalize p" and pne: "p \<noteq> []"
    by (auto simp: path_join_def p_def)
  from n have lastp: "last p \<noteq> CHR ''/''" by (simp add: p_def)
  have sp: "\<exists>S. splitSlash p = S @ [n]"
  proof (cases "D = []")
    case True
    with n show ?thesis by (auto simp: p_def splitSlash_plain intro: exI [of _ "[]"])
  next
    case False
    with n show ?thesis by (auto simp: p_def splitSlash_app splitSlash_plain)
  qed
  then obtain S where S: "splitSlash p = S @ [n]" by blast
  define N where "N = normalizeSegs (\<not> isAbsolute p) [] S"
  from S assms have norm: "normalizeSegs (\<not> isAbsolute p) [] (splitSlash p) = N @ [n]"
    by (simp add: N_def normalizeSegs_snoc)
  have Nne: "[] \<notin> set (N @ [n])"
    using normalizeSegs_nonempty [of "[]" "\<not> isAbsolute p" "splitSlash p"] norm by simp
  have Nsl: "\<forall>seg \<in> set (N @ [n]). CHR ''/'' \<notin> set seg"
  proof
    fix seg assume "seg \<in> set (N @ [n])"
    with norm normalizeSegs_subset [of "\<not> isAbsolute p" "[]" "splitSlash p"]
    have "seg \<in> set (splitSlash p) \<or> seg = ''..''" by auto
    then show "CHR ''/'' \<notin> set seg" by (auto dest: splitSlash_no_slash)
  qed
  define r where "r = joinSlash (N @ [n])"
  from n have rne: "r \<noteq> []" by (simp add: r_def joinSlash_snoc_nonempty)
  from Nsl have spr: "splitSlash r = N @ [n]"
    unfolding r_def by (intro splitSlash_joinSlash) simp_all
  from pne lastp norm rne have pn: "path_normalize p = (if isAbsolute p then ''/'' else []) @ r"
    by (simp add: path_normalize_def Let_def r_def)
  show ?thesis
  proof (cases "isAbsolute p")
    case True
    with pn have "path_normalize p = CHR ''/'' # r" by simp
    then have "resolveSegs cwd (path_normalize p) = normalizeSegs False [] (([] # N) @ [n])"
      by (simp add: resolveSegs_def isAbsolute_def spr)
    with assms pj show ?thesis by (simp only: normalizeSegs_snoc) simp
  next
    case False
    with pn have eq: "path_normalize p = r" by simp
    from joinSlash_hd [of "N @ [n]"] Nne have "hd r = hd (hd (N @ [n]))" by (simp add: r_def)
    moreover have "hd (hd (N @ [n])) \<noteq> CHR ''/''"
    proof -
      have "hd (N @ [n]) \<in> set (N @ [n])" by (rule hd_in_set) simp
      with Nne Nsl have "hd (N @ [n]) \<noteq> []" "CHR ''/'' \<notin> set (hd (N @ [n]))" by metis+
      then show ?thesis by (rule hd_not_sep)
    qed
    ultimately have "\<not> isAbsolute r" by (simp add: isAbsolute_def)
    with eq have "resolveSegs cwd (path_normalize p)
        = normalizeSegs False [] ((splitSlash cwd @ N) @ [n])"
      by (simp add: resolveSegs_def splitSlash_app spr)
    with assms pj show ?thesis by (simp only: normalizeSegs_snoc) simp
  qed
qed

lemma hexDigit_no_slash: "d < 16 \<Longrightarrow> hexDigit d \<noteq> CHR ''/''"
proof -
  assume "d < 16"
  then have "hexDigit d \<in> set ''0123456789abcdef''"
    unfolding hexDigit_def by (intro nth_mem) simp
  then show ?thesis by auto
qed

lemma decimal_no_slash: "CHR ''/'' \<notin> set (decimal n)"
proof (induction n rule: decimal.induct)
  case (1 n)
  show ?case
  proof (cases "n < 10")
    case True
    then show ?thesis using hexDigit_no_slash [of n] by (simp add: decimal.simps [of n])
  next
    case False
    have "n mod 10 < 16" by simp
    with False 1 show ?thesis
      using hexDigit_no_slash [of "n mod 10"] by (simp add: decimal.simps [of n])
  qed
qed

lemma auditName_plain:
  assumes "CHR ''/'' \<notin> set (auditStamp E (length (auditCalls w)))"
    and "CHR ''/'' \<notin> set ext"
  shows "plainName (auditName E data w @ ext)"
  using assms decimal_no_slash [of "auditAttempt data"]
  by (auto simp: plainName_def auditName_def)

lemma audit_paths_differ:
  assumes "CHR ''/'' \<notin> set (auditStamp E (length (auditCalls w)))"
  shows "resolveSegs cwd (auditLogFile E pd data w) \<noteq> resolveSegs cwd (readableLog E pd data w)"
proof
  assume eq: "resolveSegs cwd (auditLogFile E pd data w) = resolveSegs cwd (readableLog E pd data w)"
  have "plainName (auditName E data w @ ''.json'')" "plainName (auditName E data w @ ''.md'')"
    by (rule auditName_plain [OF assms], simp)+
  from resolveSegs_join_last [OF this(1), of cwd "auditDir pd"]
       resolveSegs_join_last [OF this(2), of cwd "auditDir pd"] eq
  have "auditName E data w @ ''.json'' = auditName E data w @ ''.md''"
    by (auto simp: auditLogFile_def readableLog_def)
  then show False by simp
qed

lemma logAudit_calls [simp]:
  "auditCalls (logAudit E pd d w) = auditCalls w @ [d]"
  "requests (logAudit E pd d w) = requests w"
  by (auto simp: logAudit_def Let_def split: option.splits prod.splits)

lemma logAudit_records:
  assumes "recordsAudit E pd d w"
    and "CHR ''/'' \<notin> set (auditStamp E (length (auditCalls w)))"
  shows "fileSystem (logAudit E pd d w) (resolveSegs (workDir E) (auditLogFile E pd d w))
    = Some (File (stringify E d))"
proof -
  let ?cwd = "workDir E"
  obtain e1 fs1 where mk: "mkdirRecursive (os E) (resolveSegs ?cwd (auditDir pd)) (fileSystem w) = (e1, fs1)"
    by (cases "mkdirRecursive (os E) (resolveSegs ?cwd (auditDir pd)) (fileSystem w)")
  obtain e2 fs2 where wr: "writeFile (os E) ?cwd (auditLogFile E pd d w) (stringify E d) fs1 = (e2, fs2)"
    by (cases "writeFile (os E) ?cwd (auditLogFile E pd d w) (stringify E d) fs1")
  from assms(1) mk wr have e: "e1 = None" "e2 = None"
    by (auto simp: recordsAudit_def split: option.splits)
  from writeFile_None [OF wr [unfolded e(2)]]
  have fs2: "fs2 (resolveSegs ?cwd (auditLogFile E pd d w)) = Some (File (stringify E d))"
    by simp
  show ?thesis
  proof (cases "rendersReadable d")
    case False
    with mk wr e fs2 show ?thesis by (simp add: logAudit_def Let_def)
  next
    case True
    obtain e3 fs3 where md: "writeFile (os E) ?cwd (readableLog E pd d w) (readable E d) fs2 = (e3, fs3)"
      by (cases "writeFile (os E) ?cwd (readableLog E pd d w) (readable E d) fs2")
    from writeFile_other [OF md audit_paths_differ [OF assms(2)]] fs2
    have "fs3 (resolveSegs ?cwd (auditLogFile E pd d w)) = Some (File (stringify E d))"
      by simp
    with True mk wr e md show ?thesis by (simp add: logAudit_def Let_def)
  qed
qed

lemma parseError_cases:
  "parseFixResponse parse t = Inl f \<Longrightarrow>
     (case jsonMatch t of
        None \<Rightarrow> None
      | Some fragment \<Rightarrow> (case parseResult parse fragment of Inl e \<Rightarrow> Some e | Inr r \<Rightarrow> None))
     = caught f"
  "parseFixResponse parse t = Inr result \<Longrightarrow>
     (case jsonMatch t of
        None \<Rightarrow> None
      | Some fragment \<Rightarrow> (case parseResult parse fragment of Inl e \<Rightarrow> Some e | Inr r \<Rightarrow> None))
     = None"
  by (auto simp: parseFixResponse_def split: option.splits sum.splits)

lemma fix_post:
  assumes key: "apiKey E = Some k" "k \<noteq> []"
    and run: "fixDeploymentErrors E pd pl err h w = (res, w')"
  shows "auditPost E pd (requestFor E pd pl err h w) w res w'"
proof -
  let ?req = "requestFor E pd pl err h w"
  let ?a0 = "initialAudit E pd pl err h w"
  let ?w1 = "w\<lparr>requests := requests w @ [?req]\<rparr>"
  have a0: "auditPrompt ?a0 = ?req" "auditSuccess ?a0 = False" "rawResponse ?a0 = None"
    "auditResponse ?a0 = None" "parseError ?a0 = None"
    by (simp_all add: initialAudit_def)
  have post: "auditPost E pd ?req w res w'"
    if "w' = logAudit E pd r wb" "requests wb = requests w @ [?req]"
      "auditCalls wb = auditCalls w @ earlier"
      "auditPrompt r = ?req" "auditSuccess r = (\<not> isl res)" "isl res \<longleftrightarrow> apiError r \<noteq> None"
      "rawResponse r = (case post E ?req of Inl e \<Rightarrow> None | Inr t \<Rightarrow> Some t)"
      "auditResponse r =
              (case post E ?req of
                 Inl e \<Rightarrow> None
               | Inr t \<Rightarrow> (case parseFixResponse (jsonParse E) t of
                             Inl f \<Rightarrow> None | Inr result \<Rightarrow> Some result))"
      "parseError r =
              (case post E ?req of
                 Inl e \<Rightarrow> None
               | Inr t \<Rightarrow>
                   (case jsonMatch t of
                      None \<Rightarrow> None
                    | Some fragment \<Rightarrow>
                        (case parseResult (jsonParse E) fragment of
                           Inl e \<Rightarrow> Some e | Inr result \<Rightarrow> None)))"
    for r wb earlier
    unfolding auditPost_def
    using that logAudit_records [of E pd r wb]
    by (intro conjI exI [of _ earlier] exI [of _ r] exI [of _ wb]) simp_all
  show ?thesis
  proof (cases "post E ?req")
    case (Inl e)
    with key run have "res = Inl ''Failed to get fixes from Claude''"
      and "w' = logAudit E pd (?a0\<lparr>apiError := Some e\<rparr>) ?w1"
      by (simp_all add: fixDeploymentErrors_def Let_def outerCatch_def)
    with Inl a0 show ?thesis
      by (intro post [where earlier = "[]" and r = "?a0\<lparr>apiError := Some e\<rparr>" and wb = ?w1])
         simp_all
  next
    case (Inr t)
    let ?a1 = "?a0\<lparr>rawResponse := Some t\<rparr>"
    show ?thesis
    proof (cases "parseFixResponse (jsonParse E) t")
      case pf: (Inl f)
      note pe = parseError_cases(1) [OF pf]
      show ?thesis
      proof (cases "caught f")
        case None
        with key run Inr pf have "res = Inl ''Failed to get fixes from Claude''"
          and "w' = logAudit E pd (?a1\<lparr>apiError := Some (thrown f)\<rparr>) ?w1"
          by (simp_all add: fixDeploymentErrors_def Let_def outerCatch_def)
        with Inr pf None pe a0 show ?thesis
          by (intro post [where earlier = "[]" and r = "?a1\<lparr>apiError := Some (thrown f)\<rparr>"
                and wb = ?w1])
             simp_all
      next
        case (Some e)
        let ?a2 = "?a1\<lparr>parseError := Some e, jsonFragment := jsonMatch t\<rparr>"
        from key run Inr pf Some have "res = Inl ''Failed to get fixes from Claude''"
          and "w' = logAudit E pd (?a2\<lparr>apiError := Some (thrown f)\<rparr>) (logAudit E pd ?a2 ?w1)"
          by (simp_all add: fixDeploymentErrors_def Let_def outerCatch_def)
        with Inr pf Some pe a0 show ?thesis
          by (intro post [where earlier = "[?a2]" and r = "?a2\<lparr>apiError := Some (thrown f)\<rparr>"
                and wb = "logAudit E pd ?a2 ?w1"])
             simp_all
      qed
    next
      case ok: (Inr result)
      note pe = parseError_cases(2) [OF ok]
      let ?a2 = "?a1\<lparr>auditResponse := Some result\<rparr>"
      obtain ar fs1 where
        ap: "applyFixes (os E) (workDir E) pd (jsonFiles result) (fileSystem ?w1) = (ar, fs1)"
        by (cases "applyFixes (os E) (workDir E) pd (jsonFiles result) (fileSystem ?w1)")
      show ?thesis
      proof (cases ar)
        case (Inl e)
        with key run Inr ok ap have "res = Inl ''Failed to get fixes from Claude''"
          and "w' = logAudit E pd (?a2\<lparr>apiError := Some e\<rparr>) (?w1\<lparr>fileSystem := fs1\<rparr>)"
          by (simp_all add: fixDeploymentErrors_def Let_def outerCatch_def)
        with \<open>post E ?req = Inr t\<close> ok pe a0 show ?thesis
          by (intro post [where earlier = "[]" and r = "?a2\<lparr>apiError := Some e\<rparr>"
                and wb = "?w1\<lparr>fileSystem := fs1\<rparr>"])
             simp_all
      next
        case written: (Inr written)
        let ?a3 = "?a2\<lparr>auditSuccess := True\<rparr>"
        from key run Inr ok ap written have
          "res = Inr \<lparr>fixedFiles = written, summary = jsonSummary result\<rparr>"
          and "w' = logAudit E pd ?a3 (?w1\<lparr>fileSystem := fs1\<rparr>)"
          by (simp_all add: fixDeploymentErrors_def Let_def)
        with \<open>post E ?req = Inr t\<close> ok pe a0 show ?thesis
          by (intro post [where earlier = "[]" and r = ?a3 and wb = "?w1\<lparr>fileSystem := fs1\<rparr>"])
             (simp_all add: initialAudit_def)
      qed
    qed
  qed
qed

text \<open>
  The answer \<^verbatim>\<open>{"files": [{"filename": "lib/a.ts", "content": ["X", "Y"]}]}\<close> in a run
  of \<^verbatim>\<open>main\<close> with a maximum of 2: \<^verbatim>\<open>fixDeploymentErrors\<close> writes \<^verbatim>\<open>XY\<close> to
  \<^verbatim>\<open>/proj/lib/a.ts\<close>, logs the success and returns the file with its array; the
  checksum of the array raises, and the fix step leaves no entry in the history.
\<close>

lemma array_content_written_and_returned:
  "fst (fixDeploymentErrors (exampleEnv (Inr ''Here: {chunks} done'')) ''/proj'' []
            exampleError [] (exampleWorld projOnly))
     = Inr \<lparr>fixedFiles = [\<lparr>filename = ''lib/a.ts'', content = Chunks [JStr ''X'', JStr ''Y'']\<rparr>],
            summary = JStr ''No summary provided''\<rparr>
   \<and> fixCount (trace (snd (main (requestorEnv (exampleEnv (Inr ''Here: {chunks} done'')) ''/proj'')
        (Some ''2'') (exampleWorld projOnly)))) = 1
   \<and> fileSystem (world (snd (main (requestorEnv (exampleEnv (Inr ''Here: {chunks} done'')) ''/proj'')
        (Some ''2'') (exampleWorld projOnly)))) [''proj'', ''lib'', ''a.ts''] = Some (File ''XY'')
   \<and> map auditSuccess (auditCalls (world (snd (main
        (requestorEnv (exampleEnv (Inr ''Here: {chunks} done'')) ''/proj'')
        (Some ''2'') (exampleWorld projOnly))))) = [True]
   \<and> length (fixHistory (snd (main (requestorEnv (exampleEnv (Inr ''Here: {chunks} done'')) ''/proj'')
        (Some ''2'') (exampleWorld projOnly)))) = 0"
  by code_simp

lemma field_setField:
  "field k (setField k v obj) = Some v"
  "k' \<noteq> k \<Longrightarrow> field k' (setField k v obj) = field k' obj"
  by (simp_all add: field_def setField_def)

section \<open>Claims about the fix requestor\<close>

text \<open>
  C6 (amended). In the debug script the parsing of the response fails when the text
  has no substring from an opening to a closing brace, when that substring does not
  parse, and when the parsed object lacks a non-empty \<^verbatim>\<open>files\<close> array. The error for
  the missing files is raised inside the inner \<^verbatim>\<open>try\<close>, so it is caught there like a
  syntax error: both leave the parsing as the error
  \<^verbatim>\<open>Invalid JSON format in Claude's response\<close>, and the message
  \<^verbatim>\<open>No files included in the response\<close> is only what the inner \<^verbatim>\<open>catch\<close> receives.
  Every one of the three failures leaves \<^verbatim>\<open>fixDeploymentErrors\<close> as the error
  \<^verbatim>\<open>Failed to get fixes from Claude\<close>. When the object has files and lacks a
  \<^verbatim>\<open>summary\<close>, the parsing succeeds with the summary \<^verbatim>\<open>No summary provided\<close>; the
  test is \<^verbatim>\<open>!result.summary\<close>, so the same holds of a summary that is \<^verbatim>\<open>null\<close>,
  \<^verbatim>\<open>false\<close>, \<^verbatim>\<open>0\<close> or the empty string, and any other summary is kept. In the second
  script, whose answer is an array, there is no check of the files: an empty array is
  accepted and the call returns no files.
\<close>

theorem response_parsing_failures:
  "(jsonMatch t = None \<longrightarrow>
      parseFixResponse parse t =
        Inl \<lparr>thrown = ''Could not find properly formatted JSON response from Claude'',
             caught = None\<rparr>)
   \<and> (jsonMatch t = Some fragment \<and> parse fragment = Inl e \<longrightarrow>
        parseFixResponse parse t =
          Inl \<lparr>thrown = ''Invalid JSON format in Claude's response'', caught = Some e\<rparr>)
   \<and> (jsonMatch t = Some fragment \<and> parse fragment = Inr obj \<and> lacksFiles (field ''files'' obj) \<longrightarrow>
        parseFixResponse parse t =
          Inl \<lparr>thrown = ''Invalid JSON format in Claude's response'',
               caught = Some ''No files included in the response''\<rparr>)
   \<and> (jsonMatch t = Some fragment \<and> parse fragment = Inr obj
        \<and> \<not> lacksFiles (field ''files'' obj) \<and> \<not> truthy (field ''summary'' obj) \<longrightarrow>
        parseFixResponse parse t = Inr (setField ''summary'' (JStr ''No summary provided'') obj)
        \<and> jsonSummary (setField ''summary'' (JStr ''No summary provided'') obj)
            = JStr ''No summary provided''
        \<and> jsonFiles (setField ''summary'' (JStr ''No summary provided'') obj) = jsonFiles obj)
   \<and> (jsonMatch t = Some fragment \<and> parse fragment = Inr obj
        \<and> \<not> lacksFiles (field ''files'' obj) \<and> truthy (field ''summary'' obj) \<longrightarrow>
        parseFixResponse parse t = Inr obj)
   \<and> (apiKey E = Some k \<and> k \<noteq> []
        \<and> post E (requestFor E projectDir plantUmlContent err history w) = Inr t
        \<and> isl (parseFixResponse (jsonParse E) t) \<longrightarrow>
        fst (fixDeploymentErrors E projectDir plantUmlContent err history w)
          = Inl ''Failed to get fixes from Claude'')
   \<and> (apiKey E = Some k \<and> k \<noteq> []
        \<and> (\<forall>request. post E request = Inr t)
        \<and> jsonMatchArray t = Some fragment \<and> jsonParseArray E fragment = Inr [] \<longrightarrow>
        fst (fixDeploymentErrors2 E projectDir plantUmlContent err history w) = Inr [])"
proof -
  have files: "field ''files'' (setField ''summary'' v obj) = field ''files'' obj" for v
    by (simp add: field_setField)
  have a: "parseFixResponse parse t =
        Inl \<lparr>thrown = ''Could not find properly formatted JSON response from Claude'',
             caught = None\<rparr>" if "jsonMatch t = None"
    using that by (simp add: parseFixResponse_def)
  have b: "parseFixResponse parse t =
          Inl \<lparr>thrown = ''Invalid JSON format in Claude's response'', caught = Some e\<rparr>"
    if "jsonMatch t = Some fragment" "parse fragment = Inl e"
    using that by (simp add: parseFixResponse_def parseResult_def)
  have c: "parseFixResponse parse t =
          Inl \<lparr>thrown = ''Invalid JSON format in Claude's response'',
               caught = Some ''No files included in the response''\<rparr>"
    if "jsonMatch t = Some fragment" "parse fragment = Inr obj" "lacksFiles (field ''files'' obj)"
    using that by (simp add: parseFixResponse_def parseResult_def Let_def files)
  have d: "parseFixResponse parse t = Inr (setField ''summary'' (JStr ''No summary provided'') obj)
        \<and> jsonSummary (setField ''summary'' (JStr ''No summary provided'') obj)
            = JStr ''No summary provided''
        \<and> jsonFiles (setField ''summary'' (JStr ''No summary provided'') obj) = jsonFiles obj"
    if "jsonMatch t = Some fragment" "parse fragment = Inr obj"
      "\<not> lacksFiles (field ''files'' obj)" "\<not> truthy (field ''summary'' obj)"
    using that
    by (simp add: parseFixResponse_def parseResult_def Let_def files jsonSummary_def
        jsonFiles_def field_setField)
  have d': "parseFixResponse parse t = Inr obj"
    if "jsonMatch t = Some fragment" "parse fragment = Inr obj"
      "\<not> lacksFiles (field ''files'' obj)" "truthy (field ''summary'' obj)"
    using that by (simp add: parseFixResponse_def parseResult_def Let_def)
  have e: "fst (fixDeploymentErrors E projectDir plantUmlContent err history w)
          = Inl ''Failed to get fixes from Claude''"
    if "apiKey E = Some k" "k \<noteq> []"
      "post E (requestFor E projectDir plantUmlContent err history w) = Inr t"
      "isl (parseFixResponse (jsonParse E) t)"
  proof -
    from that(4) obtain f where f: "parseFixResponse (jsonParse E) t = Inl f"
      by (cases "parseFixResponse (jsonParse E) t") auto
    with that(1-3) show ?thesis
      by (cases "caught f") (simp_all add: fixDeploymentErrors_def Let_def outerCatch_def)
  qed
  have g: "fst (fixDeploymentErrors2 E projectDir plantUmlContent err history w) = Inr []"
    if "apiKey E = Some k" "k \<noteq> []" "\<forall>request. post E request = Inr t"
      "jsonMatchArray t = Some fragment" "jsonParseArray E fragment = Inr []"
    using that by (simp add: fixDeploymentErrors2_def Let_def)
  from a b c d d' e g show ?thesis by blast
qed

theorem response_parsing_failures_witness:
  "jsonMatch ''no json'' = None
   \<and> parseFixResponse (jsonParse (exampleEnv (Inl []))) ''no json'' =
        Inl \<lparr>thrown = ''Could not find properly formatted JSON response from Claude'',
             caught = None\<rparr>
   \<and> parseFixResponse (jsonParse (exampleEnv (Inl []))) ''{bad}'' =
        Inl \<lparr>thrown = ''Invalid JSON format in Claude's response'',
             caught = Some ''Unexpected token''\<rparr>
   \<and> parseFixResponse (jsonParse (exampleEnv (Inl []))) ''{}'' =
        Inl \<lparr>thrown = ''Invalid JSON format in Claude's response'',
             caught = Some ''No files included in the response''\<rparr>
   \<and> parseFixResponse (jsonParse (exampleEnv (Inl []))) ''Here: {files} done'' =
        Inr (setField ''summary'' (JStr ''No summary provided'')
               [(''files'', JArr [fileJson \<lparr>filename = ''lib/a.ts'', content = Text ''X''\<rparr>])])
   \<and> fst (fixDeploymentErrors (exampleEnv (Inr ''{}'')) ''/proj'' [] exampleError []
              (exampleWorld projOnly))
        = Inl ''Failed to get fixes from Claude''
   \<and> fst (fixDeploymentErrors2 (exampleEnv (Inr ''[]'')) ''/proj'' [] exampleError []
              (exampleWorld projOnly))
        = Inr []"
proof -
  let ?parse = "jsonParse (exampleEnv (Inl []))"
  let ?obj = "[(''files'', JArr [fileJson \<lparr>filename = ''lib/a.ts'', content = Text ''X''\<rparr>])]"
  have ex1: "jsonMatch ''no json'' = None" by code_simp
  have ex2: "jsonMatch ''{bad}'' = Some ''{bad}'' \<and> ?parse ''{bad}'' = Inl ''Unexpected token''"
    by code_simp
  have ex3: "jsonMatch ''{}'' = Some ''{}'' \<and> ?parse ''{}'' = Inr []
      \<and> lacksFiles (field ''files'' [])"
    by code_simp
  have ex4: "jsonMatch ''Here: {files} done'' = Some ''{files}'' \<and> ?parse ''{files}'' = Inr ?obj
      \<and> \<not> lacksFiles (field ''files'' ?obj) \<and> \<not> truthy (field ''summary'' ?obj)"
    by code_simp
  have ex5: "apiKey (exampleEnv (Inr ''{}'')) = Some ''key'' \<and> ''key'' \<noteq> []
      \<and> post (exampleEnv (Inr ''{}''))
            (requestFor (exampleEnv (Inr ''{}'')) ''/proj'' [] exampleError []
               (exampleWorld projOnly)) = Inr ''{}''
      \<and> isl (parseFixResponse (jsonParse (exampleEnv (Inr ''{}''))) ''{}'')"
    by code_simp
  have ex6: "apiKey (exampleEnv (Inr ''[]'')) = Some ''key'' \<and> ''key'' \<noteq> []
      \<and> (\<forall>request. post (exampleEnv (Inr ''[]'')) request = Inr ''[]'')
      \<and> jsonMatchArray ''[]'' = Some ''[]''
      \<and> jsonParseArray (exampleEnv (Inr ''[]'')) ''[]'' = Inr []"
    by (simp add: exampleEnv_def jsonMatchArray_def)
  from response_parsing_failures [where t = "''no json''" and parse = ?parse] ex1
  have 1: "parseFixResponse ?parse ''no json'' =
        Inl \<lparr>thrown = ''Could not find properly formatted JSON response from Claude'',
             caught = None\<rparr>"
    by blast
  from response_parsing_failures
         [where t = "''{bad}''" and parse = ?parse and fragment = "''{bad}''"
            and e = "''Unexpected token''"] ex2
  have 2: "parseFixResponse ?parse ''{bad}'' =
        Inl \<lparr>thrown = ''Invalid JSON format in Claude's response'',
             caught = Some ''Unexpected token''\<rparr>"
    by blast
  from response_parsing_failures
         [where t = "''{}''" and parse = ?parse and fragment = "''{}''" and obj = "[]"] ex3
  have 3: "parseFixResponse ?parse ''{}'' =
        Inl \<lparr>thrown = ''Invalid JSON format in Claude's response'',
             caught = Some ''No files included in the response''\<rparr>"
    by blast
  from response_parsing_failures
         [where t = "''Here: {files} done''" and parse = ?parse and fragment = "''{files}''"
            and obj = ?obj] ex4
  have 4: "parseFixResponse ?parse ''Here: {files} done'' =
        Inr (setField ''summary'' (JStr ''No summary provided'') ?obj)"
    by blast
  from response_parsing_failures
         [where E = "exampleEnv (Inr ''{}'')" and k = "''key''" and t = "''{}''"
            and projectDir = "''/proj''" and plantUmlContent = "[]" and err = exampleError
            and history = "[]" and w = "exampleWorld projOnly"] ex5
  have 5: "fst (fixDeploymentErrors (exampleEnv (Inr ''{}'')) ''/proj'' [] exampleError []
              (exampleWorld projOnly)) = Inl ''Failed to get fixes from Claude''"
    by blast
  from response_parsing_failures
         [where E = "exampleEnv (Inr ''[]'')" and k = "''key''" and t = "''[]''"
            and fragment = "''[]''"
            and projectDir = "''/proj''" and plantUmlContent = "[]" and err = exampleError
            and history = "[]" and w = "exampleWorld projOnly"] ex6
  have 6: "fst (fixDeploymentErrors2 (exampleEnv (Inr ''[]'')) ''/proj'' [] exampleError []
              (exampleWorld projOnly)) = Inr []"
    by blast
  from ex1 1 2 3 4 5 6 show ?thesis by blast
qed

text \<open>
  C6 as stated fails. In the debug script the answer \<^verbatim>\<open>{}\<close>, an object without
  files, and the answer \<^verbatim>\<open>{bad}\<close>, which does not parse, leave the parsing with the
  same error and \<^verbatim>\<open>fixDeploymentErrors\<close> with the same error. In the second script
  the answer \<^verbatim>\<open>[]\<close>, an empty list of files, is no failure at all.
\<close>

theorem empty_fix_set_counterexample:
  "lacksFiles (field ''files'' [])
   \<and> jsonParse (exampleEnv (Inl [])) ''{}'' = Inr []
   \<and> jsonParse (exampleEnv (Inl [])) ''{bad}'' = Inl ''Unexpected token''
   \<and> map_sum thrown id (parseFixResponse (jsonParse (exampleEnv (Inl []))) ''{}'')
     = map_sum thrown id (parseFixResponse (jsonParse (exampleEnv (Inl []))) ''{bad}'')
   \<and> fst (fixDeploymentErrors (exampleEnv (Inr ''{}'')) ''/proj'' [] exampleError []
            (exampleWorld projOnly))
     = fst (fixDeploymentErrors (exampleEnv (Inr ''{bad}'')) ''/proj'' [] exampleError []
            (exampleWorld projOnly))
   \<and> jsonMatchArray ''[]'' = Some ''[]''
   \<and> jsonParseArray (exampleEnv (Inr ''[]'')) ''[]'' = Inr []
   \<and> fst (fixDeploymentErrors2 (exampleEnv (Inr ''[]'')) ''/proj'' [] exampleError []
            (exampleWorld projOnly)) = Inr []"
  by code_simp

text \<open>
  C7 (amended). A call of \<^verbatim>\<open>fixDeploymentErrors\<close> with an API key sends one request
  and, on every path, calls \<^verbatim>\<open>logAudit\<close> as the last thing before it returns or
  raises. The record of that call holds the prompt that was sent and the success flag,
  which is true exactly when the call returns a result, and an API error message
  exactly when it raises. It holds the raw response when the endpoint gave one, the
  parsed result when the parsing succeeded, and the parse error when the inner
  \<^verbatim>\<open>catch\<close> ran, that is when \<^verbatim>\<open>JSON.parse\<close> raised or the files were missing; for a
  response without a text in braces it holds the raw response only, and on the path of
  a failed request none of the three. If the audit directory can be made and the write
  of the record is not rejected, the file
  \<^verbatim>\<open>fix-attempt-${attempt}-${timestamp}.json\<close> of the audit directory holds the record
  when the call returns or raises (a time stamp has no slash in it); if not,
  \<^verbatim>\<open>logAudit\<close> only warns, and all the rest holds as it does otherwise.
\<close>

theorem audit_logged_on_every_path:
  assumes "apiKey E = Some k" and "k \<noteq> []"
    and "fixDeploymentErrors E projectDir plantUmlContent err history w = (res, w')"
  shows "requests w' = requests w @ [requestFor E projectDir plantUmlContent err history w]
     \<and> (\<exists>earlier r wb.
          auditCalls w' = auditCalls w @ earlier @ [r]
          \<and> auditCalls wb = auditCalls w @ earlier
          \<and> w' = logAudit E projectDir r wb
          \<and> auditPrompt r = requestFor E projectDir plantUmlContent err history w
          \<and> auditSuccess r = (\<not> isl res)
          \<and> (isl res \<longleftrightarrow> apiError r \<noteq> None)
          \<and> rawResponse r =
              (case post E (requestFor E projectDir plantUmlContent err history w) of
                 Inl e \<Rightarrow> None | Inr t \<Rightarrow> Some t)
          \<and> auditResponse r =
              (case post E (requestFor E projectDir plantUmlContent err history w) of
                 Inl e \<Rightarrow> None
               | Inr t \<Rightarrow> (case parseFixResponse (jsonParse E) t of
                             Inl f \<Rightarrow> None | Inr result \<Rightarrow> Some result))
          \<and> parseError r =
              (case post E (requestFor E projectDir plantUmlContent err history w) of
                 Inl e \<Rightarrow> None
               | Inr t \<Rightarrow>
                   (case jsonMatch t of
                      None \<Rightarrow> None
                    | Some fragment \<Rightarrow>
                        (case parseResult (jsonParse E) fragment of
                           Inl e \<Rightarrow> Some e | Inr result \<Rightarrow> None)))
          \<and> (recordsAudit E projectDir r wb
               \<and> CHR ''/'' \<notin> set (auditStamp E (length (auditCalls wb))) \<longrightarrow>
               fileSystem w' (resolveSegs (workDir E) (auditLogFile E projectDir r wb))
                 = Some (File (stringify E r))))"
  using fix_post [OF assms] unfolding auditPost_def .

text \<open>
  The answer \<^verbatim>\<open>Here: {files} done\<close> in the empty project \<^verbatim>\<open>/proj\<close>: one request, one
  call of \<^verbatim>\<open>logAudit\<close>, made after the fix was applied, when the audit directory can
  be made and nothing rejects the write, and the record with the success flag in the
  file \<^verbatim>\<open>/proj/.archline-audit/fix-attempt-1-T.json\<close>. The answer \<^verbatim>\<open>{bad}\<close>, which does not
  parse: two calls of \<^verbatim>\<open>logAudit\<close> within one millisecond, and the file holds the
  record of the second.
\<close>

theorem audit_logged_on_every_path_witness:
  "apiKey (exampleEnv (Inr ''Here: {files} done'')) = Some ''key''
   \<and> requests (snd (fixDeploymentErrors (exampleEnv (Inr ''Here: {files} done''))
        ''/proj'' [] exampleError [] (exampleWorld projOnly)))
      = [requestFor (exampleEnv (Inr ''Here: {files} done'')) ''/proj'' [] exampleError []
           (exampleWorld projOnly)]
   \<and> map auditSuccess (auditCalls (snd (fixDeploymentErrors
        (exampleEnv (Inr ''Here: {files} done'')) ''/proj'' [] exampleError []
        (exampleWorld projOnly)))) = [True]
   \<and> map rawResponse (auditCalls (snd (fixDeploymentErrors
        (exampleEnv (Inr ''Here: {files} done'')) ''/proj'' [] exampleError []
        (exampleWorld projOnly)))) = [Some ''Here: {files} done'']
   \<and> recordsAudit (exampleEnv (Inr ''Here: {files} done'')) ''/proj''
        (hd (auditCalls (snd (fixDeploymentErrors
           (exampleEnv (Inr ''Here: {files} done'')) ''/proj'' [] exampleError []
           (exampleWorld projOnly)))))
        (exampleWorld (snd (applyFixes plainPlatform ''/proj'' ''/proj''
           [fileJson \<lparr>filename = ''lib/a.ts'', content = Text ''X''\<rparr>] projOnly)))
   \<and> CHR ''/'' \<notin> set (auditStamp (exampleEnv (Inr ''Here: {files} done'')) 0)
   \<and> fileSystem (snd (fixDeploymentErrors
        (exampleEnv (Inr ''Here: {files} done'')) ''/proj'' [] exampleError []
        (exampleWorld projOnly))) [''proj'', ''.archline-audit'', ''fix-attempt-1-T.json'']
      = Some (File ''success'')
   \<and> map apiError (auditCalls (snd (fixDeploymentErrors (exampleEnv (Inr ''{bad}''))
        ''/proj'' [] exampleError [] (exampleWorld projOnly))))
      = [None, Some ''Invalid JSON format in Claude's response'']
   \<and> fileSystem (snd (fixDeploymentErrors (exampleEnv (Inr ''{bad}''))
        ''/proj'' [] exampleError [] (exampleWorld projOnly)))
        [''proj'', ''.archline-audit'', ''fix-attempt-1-T.json'']
      = Some (File ''failure: Invalid JSON format in Claude's response'')"
proof -
  let ?E = "exampleEnv (Inr ''Here: {files} done'')"
  let ?run = "fixDeploymentErrors ?E ''/proj'' [] exampleError [] (exampleWorld projOnly)"
  have key: "apiKey ?E = Some ''key''" "''key'' \<noteq> []" by (simp_all add: exampleEnv_def)
  have run: "?run = (fst ?run, snd ?run)" by simp
  from audit_logged_on_every_path [OF key run]
  have "requests (snd ?run) = requests (exampleWorld projOnly)
      @ [requestFor ?E ''/proj'' [] exampleError [] (exampleWorld projOnly)]"
    by blast
  then have r: "requests (snd ?run)
      = [requestFor ?E ''/proj'' [] exampleError [] (exampleWorld projOnly)]"
    by (simp add: exampleWorld_def)
  have a: "map auditSuccess (auditCalls (snd ?run)) = [True]" by code_simp
  have b: "map rawResponse (auditCalls (snd ?run)) = [Some ''Here: {files} done'']" by code_simp
  have c: "fileSystem (snd ?run) [''proj'', ''.archline-audit'', ''fix-attempt-1-T.json'']
      = Some (File ''success'')"
    by code_simp
  have d: "map apiError (auditCalls (snd (fixDeploymentErrors (exampleEnv (Inr ''{bad}''))
        ''/proj'' [] exampleError [] (exampleWorld projOnly))))
      = [None, Some ''Invalid JSON format in Claude's response'']
   \<and> fileSystem (snd (fixDeploymentErrors (exampleEnv (Inr ''{bad}''))
        ''/proj'' [] exampleError [] (exampleWorld projOnly)))
        [''proj'', ''.archline-audit'', ''fix-attempt-1-T.json'']
      = Some (File ''failure: Invalid JSON format in Claude's response'')"
    by code_simp
  have e: "recordsAudit ?E ''/proj'' (hd (auditCalls (snd ?run)))
        (exampleWorld (snd (applyFixes plainPlatform ''/proj'' ''/proj''
           [fileJson \<lparr>filename = ''lib/a.ts'', content = Text ''X''\<rparr>] projOnly)))
      \<and> CHR ''/'' \<notin> set (auditStamp ?E 0)"
    by code_simp
  from key r a b c d e show ?thesis by blast
qed

text \<open>
  C7 as stated fails. When the request itself fails, the record that is written has no
  raw response, no parsed result and no parse error. When the answer has no text in
  braces, the record has the raw response and no parse error. When a file named
  \<^verbatim>\<open>.archline-audit\<close> is in the project, the call applies the fix and returns its
  result, \<^verbatim>\<open>logAudit\<close> is called, and no record is written.
\<close>

theorem audit_record_counterexample:
  "map rawResponse (auditCalls (snd (fixDeploymentErrors (exampleEnv (Inl ''ECONNREFUSED''))
        ''/proj'' [] exampleError [] (exampleWorld projOnly)))) = [None]
   \<and> map auditResponse (auditCalls (snd (fixDeploymentErrors (exampleEnv (Inl ''ECONNREFUSED''))
        ''/proj'' [] exampleError [] (exampleWorld projOnly)))) = [None]
   \<and> map parseError (auditCalls (snd (fixDeploymentErrors (exampleEnv (Inl ''ECONNREFUSED''))
        ''/proj'' [] exampleError [] (exampleWorld projOnly)))) = [None]
   \<and> fileSystem (snd (fixDeploymentErrors (exampleEnv (Inl ''ECONNREFUSED''))
        ''/proj'' [] exampleError [] (exampleWorld projOnly)))
        [''proj'', ''.archline-audit'', ''fix-attempt-1-T.json'']
      = Some (File ''failure: ECONNREFUSED'')
   \<and> map rawResponse (auditCalls (snd (fixDeploymentErrors (exampleEnv (Inr ''no json''))
        ''/proj'' [] exampleError [] (exampleWorld projOnly)))) = [Some ''no json'']
   \<and> map parseError (auditCalls (snd (fixDeploymentErrors (exampleEnv (Inr ''no json''))
        ''/proj'' [] exampleError [] (exampleWorld projOnly)))) = [None]
   \<and> \<not> isl (fst (fixDeploymentErrors (exampleEnv (Inr ''Here: {files} done''))
        ''/proj'' [] exampleError [] (exampleWorld projBlocked)))
   \<and> map auditSuccess (auditCalls (snd (fixDeploymentErrors
        (exampleEnv (Inr ''Here: {files} done'')) ''/proj'' [] exampleError []
        (exampleWorld projBlocked)))) = [True]
   \<and> fileSystem (snd (fixDeploymentErrors (exampleEnv (Inr ''Here: {files} done''))
        ''/proj'' [] exampleError [] (exampleWorld projBlocked)))
        [''proj'', ''.archline-audit'', ''fix-attempt-1-T.json'']
      = None"
  by code_simp

end
